(* ===== verification/Prelude.thy ===== *)
theory Prelude
  imports Complex_Main "HOL-Library.Word" "HOL-Library.Signed_Division"
begin

text \<open>
  Shared vocabulary of the ClervLive development: the run-time panics of Go
  as an error type, Go's truncating division and remainder on \<open>int\<close>,
  checked slice indexing, a bind on the sum type, and the list operation
  \<open>keep_last\<close> used to state what a bounded recent-message window holds.
  The collections \<open>go_eval\<close> (definitions unfolded when a witness
  evaluates a concrete run) and \<open>inv_step\<close> (one preservation lemma
  per operation) are declared here and filled by the component theories.
\<close>

named_theorems go_eval "definitions unfolded to evaluate the model on concrete inputs"
named_theorems inv_step "preservation lemmas of the component invariants"

subsection \<open>Go panics and results\<close>

text \<open>
  A Go panic is not an error value the program returns: it stops the process.
  The model keeps it as the left summand of a result, so that every place
  where the Go code can panic is a branch of the definition.
\<close>

datatype go_panic =
    IndexOutOfRange
  | IntegerDivideByZero
  | MakeSliceLenOutOfRange
  | MakeChanSizeOutOfRange
  | SendOnClosedChannel
  | CloseOfClosedChannel
  | NilPointerDereference

type_synonym 'a go_result = "go_panic + 'a"

definition go_bind :: "'e + 'a \<Rightarrow> ('a \<Rightarrow> 'e + 'b) \<Rightarrow> 'e + 'b" where
  "go_bind r f = (case r of Inl e \<Rightarrow> Inl e | Inr a \<Rightarrow> f a)"

subsection \<open>Go integer division and slices\<close>

text \<open>
  Go's \<open>/\<close> and \<open>%\<close> on signed integers truncate towards zero; they are
  \<open>sdiv\<close> and \<open>smod\<close> of \<open>HOL-Library.Signed_Division\<close>, not \<open>div\<close>
  and \<open>mod\<close>. A zero divisor panics.
\<close>

definition go_rem :: "int \<Rightarrow> int \<Rightarrow> int go_result" where
  "go_rem a b = (if b = 0 then Inl IntegerDivideByZero else Inr (a smod b))"

definition go_quo :: "int \<Rightarrow> int \<Rightarrow> int go_result" where
  "go_quo a b = (if b = 0 then Inl IntegerDivideByZero else Inr (a sdiv b))"

text \<open>A slice read \<open>xs[i]\<close>: Go panics when \<open>i\<close> is outside \<open>[0, len xs)\<close>.\<close>

definition go_index :: "'a list \<Rightarrow> int \<Rightarrow> 'a go_result" where
  "go_index xs i =
     (if 0 \<le> i \<and> i < int (length xs) then Inr (xs ! nat i) else Inl IndexOutOfRange)"

text \<open>A slice write \<open>xs[i] = v\<close>, with the same bounds check.\<close>

definition go_update :: "'a list \<Rightarrow> int \<Rightarrow> 'a \<Rightarrow> 'a list go_result" where
  "go_update xs i v =
     (if 0 \<le> i \<and> i < int (length xs) then Inr (xs[nat i := v]) else Inl IndexOutOfRange)"

text \<open>Reading a list of positions, stopping at the first out-of-range one.\<close>

fun go_index_all :: "'a list \<Rightarrow> int list \<Rightarrow> 'a list go_result" where
  "go_index_all xs [] = Inr []"
| "go_index_all xs (i # is) =
     go_bind (go_index xs i) (\<lambda>x. go_bind (go_index_all xs is) (\<lambda>ys. Inr (x # ys)))"

subsection \<open>The last elements of a list\<close>

definition keep_last :: "nat \<Rightarrow> 'a list \<Rightarrow> 'a list" where
  "keep_last k xs = drop (length xs - k) xs"

subsection \<open>Lemmas\<close>

lemma go_bind_simps [simp]:
  "go_bind (Inl e) f = Inl e"
  "go_bind (Inr a) f = f a"
  by (simp_all add: go_bind_def)

lemma go_bind_eq_Inr [simp]:
  "go_bind r f = Inr b \<longleftrightarrow> (\<exists>a. r = Inr a \<and> f a = Inr b)"
  by (cases r) simp_all

lemma smod_nonneg_eq_mod [simp]:
  "0 \<le> a \<Longrightarrow> 0 < b \<Longrightarrow> a smod b = a mod (b::int)"
  by (simp add: signed_modulo_int_def sgn_if)

lemma sdiv_nonneg_eq_div [simp]:
  "0 \<le> a \<Longrightarrow> 0 < b \<Longrightarrow> a sdiv b = a div (b::int)"
  by (auto simp add: signed_divide_int_def sgn_if)

lemma go_rem_pos:
  "0 \<le> a \<Longrightarrow> 0 < b \<Longrightarrow> go_rem a b = Inr (a mod b)"
  by (simp add: go_rem_def)

lemma go_index_in_range [simp]:
  "0 \<le> i \<Longrightarrow> i < int (length xs) \<Longrightarrow> go_index xs i = Inr (xs ! nat i)"
  by (simp add: go_index_def)

lemma go_update_in_range [simp]:
  "0 \<le> i \<Longrightarrow> i < int (length xs) \<Longrightarrow> go_update xs i v = Inr (xs[nat i := v])"
  by (simp add: go_update_def)

lemma go_index_all_in_range:
  "\<forall>i \<in> set is. 0 \<le> i \<and> i < int (length xs) \<Longrightarrow>
   go_index_all xs is = Inr (map (\<lambda>i. xs ! nat i) is)"
  by (induction "is") simp_all

lemma length_keep_last [simp]: "length (keep_last k xs) = min k (length xs)"
  by (simp add: keep_last_def)

lemma keep_last_all [simp]: "length xs \<le> k \<Longrightarrow> keep_last k xs = xs"
  by (simp add: keep_last_def)

lemma keep_last_append_one:
  "length xs = k \<Longrightarrow> 0 < k \<Longrightarrow> keep_last k (xs @ [x]) = tl xs @ [x]"
  by (cases xs) (simp_all add: keep_last_def)

lemma keep_last_keep_last [simp]:
  "keep_last j (keep_last k xs) = keep_last (min j k) xs"
  unfolding keep_last_def drop_drop length_drop
  by (rule arg_cong [where f = "\<lambda>n. drop n xs"]) (simp add: min_def, arith)

lemma keep_last_append_keep_last [simp]:
  "keep_last k (keep_last k xs @ ys) = keep_last k (xs @ ys)"
proof -
  define d where "d = length xs - k"
  have "keep_last k xs @ ys = drop d (xs @ ys)" by (simp add: keep_last_def d_def)
  then have "keep_last k (keep_last k xs @ ys) = drop (length (xs @ ys) - d - k + d) (xs @ ys)"
    by (simp only: keep_last_def length_drop drop_drop)
  also have "length (xs @ ys) - d - k + d = length (xs @ ys) - k"
    by (simp add: d_def)
  finally show ?thesis by (simp only: keep_last_def)
qed

lemma nth_keep_last:
  "i < min k (length xs) \<Longrightarrow> keep_last k xs ! i = xs ! (length xs - min k (length xs) + i)"
  by (simp add: keep_last_def min_def)

end
