(* ===== verification/Message.thy ===== *)
theory Message
  imports Prelude
begin

text \<open>
  The event record of \<open>src/internal/config/config.go\<close> (its second part,
  package \<open>core\<close>, file \<open>message.go\<close>): \<open>Message\<close>, \<open>NewMessage\<close> and
  \<open>GenerateId\<close>. Time is an integer count of nanoseconds since the Unix epoch
  (\<open>time.Time\<close> as the program uses it). The payload is a JSON object; the
  delivery core never inspects it.
\<close>

datatype json =
    JNull
  | JBool bool
  | JNumber int
  | JString string
  | JArray "json list"
  | JObject "(string \<times> json) list"

type_synonym json_object = "(string \<times> json) list"
type_synonym time_ns = int

record message =
  msg_id :: string
  msg_topic :: string
  msg_tenant :: string
  msg_data :: json_object
  msg_timestamp :: time_ns

text \<open>The Go zero value of \<open>Message\<close>, which fills a freshly made slice.\<close>

definition zero_message :: message where
  "zero_message = \<lparr>msg_id = [], msg_topic = [], msg_tenant = [], msg_data = [], msg_timestamp = 0\<rparr>"

text \<open>
  \<open>GenerateId\<close> formats the wall clock with the layout
  \<open>"20060102-150405.000000"\<close>: the digits of the clock down to the
  microsecond. The calendar formatting itself is Go's standard library; it is
  the parameter \<open>fmt\<close>, applied to the clock truncated to microseconds,
  which is all the layout keeps.
\<close>

definition generate_id :: "(int \<Rightarrow> string) \<Rightarrow> time_ns \<Rightarrow> string" where
  "generate_id fmt now = ''msg-'' @ fmt (now div 1000)"

text \<open>
  \<open>NewMessage\<close> reads the clock twice: once inside \<open>GenerateId\<close> (\<open>t_id\<close>)
  and once for the timestamp (\<open>t_ts\<close>, not earlier than \<open>t_id\<close>).
\<close>

definition new_message ::
  "(int \<Rightarrow> string) \<Rightarrow> time_ns \<Rightarrow> time_ns \<Rightarrow> string \<Rightarrow> string \<Rightarrow> json_object \<Rightarrow> message" where
  "new_message fmt t_id t_ts topic tenant data =
     \<lparr>msg_id = generate_id fmt t_id, msg_topic = topic, msg_tenant = tenant,
      msg_data = data, msg_timestamp = t_ts\<rparr>"

text \<open>A message that differs from the zero value only in its id, for concrete runs.\<close>

definition example_message :: "string \<Rightarrow> message" where
  "example_message i = zero_message\<lparr>msg_id := i\<rparr>"

lemma new_message_fields [simp]:
  "msg_topic (new_message fmt t_id t_ts topic tenant data) = topic"
  "msg_tenant (new_message fmt t_id t_ts topic tenant data) = tenant"
  "msg_data (new_message fmt t_id t_ts topic tenant data) = data"
  "msg_id (new_message fmt t_id t_ts topic tenant data) = generate_id fmt t_id"
  "msg_timestamp (new_message fmt t_id t_ts topic tenant data) = t_ts"
  by (simp_all add: new_message_def)

end
