(* ===== verification/RecentCache.thy ===== *)
theory RecentCache
  imports Message
begin

text \<open>
  The ring buffer of the last messages of a topic,
  \<open>src/internal/core/recent_cache.go\<close> (\<open>RecentMessageCache\<close>): a slice of
  \<open>size\<close> slots, the next write position \<open>index\<close> and the number of valid
  slots \<open>count\<close>. The mutex only serialises the methods; each method is one
  atomic step here. Go \<open>int\<close>s are \<open>int\<close>: the values stay between
  \<open>-size\<close> and \<open>2 * size\<close>, far from the 64-bit bounds.
  The package \<open>cache\<close> (\<open>src/internal/cache/recent_cache.go\<close>) holds a
  line-for-line copy of the same type, which nothing imports; the definitions
  below model both.

  The abstraction \<open>rc_contents\<close> reads the valid slots oldest first. The
  refinement lemmas say that \<open>Add\<close> appends and keeps the last \<open>size\<close>
  messages, and that \<open>GetLast n\<close> returns the last \<open>n\<close> of them.
\<close>

record recent_cache =
  rc_messages :: "message list"
  rc_size :: int
  rc_index :: int
  rc_count :: int

definition new_recent_message_cache :: "int \<Rightarrow> recent_cache go_result" where
  "new_recent_message_cache sz =
     (if sz < 0 then Inl MakeSliceLenOutOfRange
      else Inr \<lparr>rc_messages = replicate (nat sz) zero_message, rc_size = sz,
                rc_index = 0, rc_count = 0\<rparr>)"

text \<open>
  \<open>Add\<close>: the slot write is checked first (a cache of size 0 panics there),
  then the index advances modulo the size.
\<close>

definition rc_add :: "recent_cache \<Rightarrow> message \<Rightarrow> recent_cache go_result" where
  "rc_add c msg =
     go_bind (go_update (rc_messages c) (rc_index c) msg) (\<lambda>ms.
     go_bind (go_rem (rc_index c + 1) (rc_size c)) (\<lambda>idx.
       Inr (c\<lparr>rc_messages := ms, rc_index := idx,
              rc_count := (if rc_count c < rc_size c then rc_count c + 1 else rc_count c)\<rparr>)))"

text \<open>
  \<open>GetLast n\<close>: \<open>n\<close> is cut down to \<open>count\<close>; zero gives the empty slice;
  a negative length panics in \<open>make\<close>; the loop reads the \<open>n\<close> slots
  that end just before \<open>index\<close>.
\<close>

definition rc_get_last :: "recent_cache \<Rightarrow> int \<Rightarrow> message list go_result" where
  "rc_get_last c n =
     (let n = (if n > rc_count c then rc_count c else n) in
      if n = 0 then Inr []
      else if n < 0 then Inl MakeSliceLenOutOfRange
      else go_bind (go_rem (rc_index c - n + rc_size c) (rc_size c)) (\<lambda>start.
             go_index_all (rc_messages c)
               (map (\<lambda>i. (start + int i) smod rc_size c) [0..<nat n])))"

definition rc_get_all :: "recent_cache \<Rightarrow> message list go_result" where
  "rc_get_all c = rc_get_last c (rc_count c)"

definition rc_clear :: "recent_cache \<Rightarrow> recent_cache" where
  "rc_clear c = c\<lparr>rc_index := 0, rc_count := 0\<rparr>"

definition rc_get_count :: "recent_cache \<Rightarrow> int" where
  "rc_get_count c = rc_count c"

declare new_recent_message_cache_def [go_eval] rc_add_def [go_eval]
  rc_get_last_def [go_eval] rc_get_all_def [go_eval] rc_clear_def [go_eval]

subsection \<open>Invariant and abstraction\<close>

definition rc_wf :: "recent_cache \<Rightarrow> bool" where
  "rc_wf c \<longleftrightarrow> 0 < rc_size c \<and> length (rc_messages c) = nat (rc_size c)
     \<and> 0 \<le> rc_index c \<and> rc_index c < rc_size c
     \<and> 0 \<le> rc_count c \<and> rc_count c \<le> rc_size c"

text \<open>Slot of the \<open>j\<close>-th oldest valid message.\<close>

definition rc_slot :: "recent_cache \<Rightarrow> nat \<Rightarrow> int" where
  "rc_slot c j = (rc_index c - rc_count c + int j) mod rc_size c"

definition rc_contents :: "recent_cache \<Rightarrow> message list" where
  "rc_contents c = map (\<lambda>j. rc_messages c ! nat (rc_slot c j)) [0..<nat (rc_count c)]"

text \<open>A sequence of \<open>Add\<close> calls, stopping at the first panic.\<close>

fun rc_add_all :: "recent_cache \<Rightarrow> message list \<Rightarrow> recent_cache go_result" where
  "rc_add_all c [] = Inr c"
| "rc_add_all c (m # ms) = go_bind (rc_add c m) (\<lambda>c'. rc_add_all c' ms)"

subsection \<open>Lemmas\<close>

lemma length_rc_contents [simp]: "length (rc_contents c) = nat (rc_count c)"
  by (simp add: rc_contents_def)

lemma nth_rc_contents:
  "j < nat (rc_count c) \<Longrightarrow> rc_contents c ! j = rc_messages c ! nat (rc_slot c j)"
  by (simp add: rc_contents_def)

text \<open>Two slots less than a full turn apart are different.\<close>

lemma mod_shift_ne:
  fixes i d n :: int
  assumes "0 \<le> i" "i < n" "0 < d" "d < n"
  shows "(i - d) mod n \<noteq> i"
proof
  assume "(i - d) mod n = i"
  with assms(1,2) have "(i - d) mod n = i mod n" by simp
  then have "n dvd (i - d) - i" by (simp add: mod_eq_dvd_iff)
  then have "n dvd d" by (simp add: dvd_minus_iff)
  with assms(3,4) show False using zdvd_imp_le by fastforce
qed

lemma rc_add_eq:
  assumes "rc_wf c"
  shows "rc_add c m = Inr (c\<lparr>rc_messages := (rc_messages c)[nat (rc_index c) := m],
            rc_index := (rc_index c + 1) mod rc_size c,
            rc_count := (if rc_count c < rc_size c then rc_count c + 1 else rc_count c)\<rparr>)"
  using assms by (simp add: rc_add_def rc_wf_def go_rem_def)

lemma rc_add_wf [inv_step]:
  "rc_wf c \<Longrightarrow> rc_add c m = Inr c' \<Longrightarrow> rc_wf c'"
  by (auto simp: rc_add_eq rc_wf_def)

lemma rc_add_contents:
  assumes wf: "rc_wf c" and add: "rc_add c m = Inr c'"
  shows "rc_contents c' = keep_last (nat (rc_size c)) (rc_contents c @ [m])"
proof -
  define N where "N = rc_size c"
  define i0 where "i0 = rc_index c"
  define k where "k = rc_count c"
  have defs [simp]: "rc_size c = N" "rc_index c = i0" "rc_count c = k"
    by (simp_all add: N_def i0_def k_def)
  have c': "c' = c\<lparr>rc_messages := (rc_messages c)[nat i0 := m],
            rc_index := (i0 + 1) mod N, rc_count := (if k < N then k + 1 else k)\<rparr>"
    using add rc_add_eq[OF wf, of m] by (metis defs sum.inject(2))
  have N: "0 < N" "length (rc_messages c) = nat N" and i0: "0 \<le> i0" "i0 < N"
    and k: "0 \<le> k" "k \<le> N"
    using wf by (simp_all add: rc_wf_def)
  have slot': "rc_slot c' j = (i0 - (if k < N then k + 1 else k) + 1 + int j) mod N" for j
  proof -
    have "rc_slot c' j = ((i0 + 1) mod N - (if k < N then k + 1 else k) + int j) mod N"
      by (simp add: c' rc_slot_def)
    also have "\<dots> = (i0 + 1 - (if k < N then k + 1 else k) + int j) mod N"
      by (metis mod_add_left_eq mod_diff_left_eq)
    finally show ?thesis by (simp add: algebra_simps)
  qed
  have old: "rc_contents c ! j = rc_messages c ! nat ((i0 - k + int j) mod N)"
    if "j < nat k" for j
    using that by (simp add: nth_rc_contents rc_slot_def)
  have upd: "(rc_messages c)[nat i0 := m] ! nat p = (if p = i0 then m else rc_messages c ! nat p)"
    if "0 \<le> p" "p < N" for p
    using that N i0 by (auto simp: nth_list_update)
  show ?thesis
  proof (cases "k < N")
    case True
    have len: "length (rc_contents c @ [m]) \<le> nat N" using True k by (simp add:)
    show ?thesis
    proof (rule nth_equalityI)
      show "length (rc_contents c') = length (keep_last (nat (rc_size c)) (rc_contents c @ [m]))"
        using True k len by (simp add: c')
    next
      fix j assume j: "j < length (rc_contents c')"
      then have jk: "j \<le> nat k" using True k by (simp add: c')
      have pos: "rc_slot c' j = (i0 - (k - int j)) mod N"
        using True by (simp add: slot' algebra_simps)
      show "rc_contents c' ! j = keep_last (nat (rc_size c)) (rc_contents c @ [m]) ! j"
      proof (cases "j < nat k")
        case lt: True
        have "(i0 - (k - int j)) mod N \<noteq> i0"
          using mod_shift_ne[of i0 N "k - int j"] i0 lt True k by simp
        then show ?thesis
          using lt jk j pos len upd[of "(i0 - (k - int j)) mod N"] N old[OF lt]
          by (simp add: nth_rc_contents nth_append algebra_simps c')
      next
        case False
        then have "j = nat k" using jk by simp
        then show ?thesis
          using len pos upd[of i0] i0 k N
          by (simp add: nth_rc_contents nth_append c')
      qed
    qed
  next
    case False
    then have kN: "k = N" using k by simp
    show ?thesis
    proof (rule nth_equalityI)
      show "length (rc_contents c') = length (keep_last (nat (rc_size c)) (rc_contents c @ [m]))"
        using kN N by (simp add: c')
    next
      fix j assume j: "j < length (rc_contents c')"
      then have jN: "j < nat N" using kN by (simp add: c')
      have pos: "rc_slot c' j = (i0 - (N - 1 - int j)) mod N"
        using kN by (simp add: slot' algebra_simps)
      have kl: "keep_last (nat N) (rc_contents c @ [m]) = tl (rc_contents c) @ [m]"
        using kN N by (intro keep_last_append_one) simp_all
      show "rc_contents c' ! j = keep_last (nat (rc_size c)) (rc_contents c @ [m]) ! j"
      proof (cases "j < nat N - 1")
        case lt: True
        have "(i0 - (N - 1 - int j)) mod N \<noteq> i0"
          using mod_shift_ne[of i0 N "N - 1 - int j"] i0 lt by simp
        moreover have "tl (rc_contents c) ! j = rc_contents c ! Suc j"
          using lt kN N by (simp add: nth_tl)
        ultimately show ?thesis
          using lt jN pos kl upd[of "(i0 - (N - 1 - int j)) mod N"] N old[of "Suc j"] kN
          by (simp add: nth_rc_contents nth_append algebra_simps c')
      next
        case False
        then have "j = nat N - 1" using jN by simp
        then show ?thesis
          using pos kl upd[of i0] i0 kN N
          by (simp add: nth_rc_contents nth_append c')
      qed
    qed
  qed
qed

lemma rc_get_last_eq:
  assumes wf: "rc_wf c" and n: "0 \<le> n"
  shows "rc_get_last c n = Inr (keep_last (nat n) (rc_contents c))"
proof -
  define N where "N = rc_size c"
  define i0 where "i0 = rc_index c"
  define k where "k = rc_count c"
  define n1 where "n1 = (if n > k then k else n)"
  have defs [simp]: "rc_size c = N" "rc_index c = i0" "rc_count c = k"
    by (simp_all add: N_def i0_def k_def)
  have N: "0 < N" "length (rc_messages c) = nat N" and i0: "0 \<le> i0" "i0 < N"
    and k: "0 \<le> k" "k \<le> N"
    using wf by (simp_all add: rc_wf_def)
  have n1: "0 \<le> n1" "n1 \<le> k" "nat n1 = min (nat n) (nat k)"
    using n k by (auto simp: n1_def)
  have unf: "rc_get_last c n =
     (if n1 = 0 then Inr []
      else if n1 < 0 then Inl MakeSliceLenOutOfRange
      else go_bind (go_rem (i0 - n1 + N) N) (\<lambda>start.
             go_index_all (rc_messages c) (map (\<lambda>i. (start + int i) smod N) [0..<nat n1])))"
    by (simp only: rc_get_last_def Let_def n1_def defs)
  show ?thesis
  proof (cases "n1 = 0")
    case True
    then have "keep_last (nat n) (rc_contents c) = []" using n1 by (simp flip: length_0_conv)
    then show ?thesis using True by (simp add: unf)
  next
    case False
    define start where "start = (i0 - n1 + N) mod N"
    have st: "0 \<le> i0 - n1 + N" using i0 n1 k by simp
    have pos: "(start + int i) smod N = (i0 - n1 + int i) mod N" for i
    proof -
      have "0 \<le> start" using N by (simp add: start_def)
      then have "(start + int i) smod N = (start + int i) mod N" using N by simp
      also have "\<dots> = (i0 - n1 + int i) mod N"
        by (simp add: start_def mod_add_left_eq)
      finally show ?thesis .
    qed
    have inr: "\<forall>p \<in> set (map (\<lambda>i. (start + int i) smod N) [0..<nat n1]).
                 0 \<le> p \<and> p < int (length (rc_messages c))"
      using N by (auto simp: pos)
    have gr: "go_rem (i0 - n1 + N) N = Inr start" using st N by (simp add: go_rem_pos start_def)
    have "rc_get_last c n =
            go_index_all (rc_messages c) (map (\<lambda>i. (start + int i) smod N) [0..<nat n1])"
      using False n1 by (simp add: unf gr del: smod_nonneg_eq_mod)
    also have "\<dots> = Inr (map (\<lambda>p. rc_messages c ! nat p) (map (\<lambda>i. (start + int i) smod N) [0..<nat n1]))"
      by (rule go_index_all_in_range[OF inr])
    also have "\<dots> = Inr (keep_last (nat n) (rc_contents c))"
    proof (rule arg_cong [where f = Inr], rule nth_equalityI)
      fix i assume "i < length (map (\<lambda>p. rc_messages c ! nat p) (map (\<lambda>i. (start + int i) smod N) [0..<nat n1]))"
      then have i: "i < nat n1" by simp
      have "keep_last (nat n) (rc_contents c) ! i = rc_contents c ! (nat k - nat n1 + i)"
        using i n1 by (simp add: nth_keep_last)
      also have "\<dots> = rc_messages c ! nat ((i0 - k + int (nat k - nat n1 + i)) mod N)"
      proof -
        have "nat k - nat n1 + i < nat k" using i n1 by linarith
        then show ?thesis by (simp add: nth_rc_contents rc_slot_def)
      qed
      also have "int (nat k - nat n1 + i) = k - n1 + int i"
        using i n1 by simp
      finally have "keep_last (nat n) (rc_contents c) ! i = rc_messages c ! nat ((i0 - n1 + int i) mod N)"
        by (simp add: algebra_simps)
      then show "map (\<lambda>p. rc_messages c ! nat p) (map (\<lambda>i. (start + int i) smod N) [0..<nat n1]) ! i
                    = keep_last (nat n) (rc_contents c) ! i"
        using i by (simp add: pos)
    qed (use n1 in simp)
    finally show ?thesis .
  qed
qed

lemma rc_add_ok: "rc_wf c \<Longrightarrow> \<exists>c'. rc_add c m = Inr c'"
  by (simp add: rc_add_eq)

lemma rc_add_size: "rc_wf c \<Longrightarrow> rc_add c m = Inr c' \<Longrightarrow> rc_size c' = rc_size c"
  by (auto simp: rc_add_eq)

lemma rc_add_all_window:
  "rc_wf c \<Longrightarrow> \<exists>c'. rc_add_all c ms = Inr c' \<and> rc_wf c' \<and> rc_size c' = rc_size c
     \<and> rc_contents c' = keep_last (nat (rc_size c)) (rc_contents c @ ms)"
proof (induction ms arbitrary: c)
  case Nil
  then have "length (rc_contents c) \<le> nat (rc_size c)" by (simp add: rc_wf_def nat_mono)
  with Nil show ?case by simp
next
  case (Cons m ms)
  obtain c1 where c1: "rc_add c m = Inr c1" using rc_add_ok[OF Cons.prems] by blast
  have wf1: "rc_wf c1" and sz1: "rc_size c1 = rc_size c"
    and ct1: "rc_contents c1 = keep_last (nat (rc_size c)) (rc_contents c @ [m])"
    using rc_add_wf[OF Cons.prems c1] rc_add_size[OF Cons.prems c1]
          rc_add_contents[OF Cons.prems c1] by simp_all
  obtain c' where c': "rc_add_all c1 ms = Inr c'" "rc_wf c'" "rc_size c' = rc_size c1"
    "rc_contents c' = keep_last (nat (rc_size c1)) (rc_contents c1 @ ms)"
    using Cons.IH[OF wf1] by blast
  show ?case using c1 c' sz1 ct1 by simp
qed

lemma new_cache_wf:
  "0 < sz \<Longrightarrow> \<exists>c. new_recent_message_cache sz = Inr c \<and> rc_wf c \<and> rc_size c = sz \<and> rc_contents c = []"
  by (simp add: new_recent_message_cache_def rc_wf_def rc_contents_def)

subsection \<open>Properties\<close>

text \<open>
  C1 (refinement of \<open>Add\<close>). On a well-formed cache \<open>Add\<close> never
  panics, keeps the cache well-formed, and its contents become the old contents
  with the new message appended, cut to the last \<open>size\<close> messages: the
  oldest message is evicted on overflow and insertion order is kept.
\<close>

theorem rc_add_refines:
  assumes "rc_wf c"
  shows "\<exists>c'. rc_add c m = Inr c' \<and> rc_wf c'
           \<and> rc_contents c' = keep_last (nat (rc_size c)) (rc_contents c @ [m])"
proof -
  obtain c' where c': "rc_add c m = Inr c'" using rc_add_ok[OF assms] by blast
  then show ?thesis using rc_add_wf[OF assms c'] rc_add_contents[OF assms c'] by blast
qed

lemma rc_add_refines_witness:
  "rc_wf \<lparr>rc_messages = [zero_message, zero_message], rc_size = 2, rc_index = 1, rc_count = 2\<rparr>
   \<and> (\<exists>c'. rc_add \<lparr>rc_messages = [zero_message, zero_message], rc_size = 2, rc_index = 1, rc_count = 2\<rparr>
               (zero_message\<lparr>msg_id := ''m''\<rparr>) = Inr c' \<and> rc_wf c'
        \<and> rc_contents c' = [zero_message, zero_message\<lparr>msg_id := ''m''\<rparr>])"
proof -
  have wf: "rc_wf \<lparr>rc_messages = [zero_message, zero_message], rc_size = 2, rc_index = 1, rc_count = 2\<rparr>"
    by (simp add: rc_wf_def)
  have "rc_contents \<lparr>rc_messages = [zero_message, zero_message], rc_size = 2, rc_index = 1, rc_count = 2\<rparr>
        = [zero_message, zero_message]"
    by (simp add: rc_contents_def rc_slot_def upt_rec)
  then show ?thesis
    using wf rc_add_refines[OF wf, of "zero_message\<lparr>msg_id := ''m''\<rparr>"] by (simp add: keep_last_def)
qed

text \<open>
  C2 (the cache's contract). Adding any sequence of messages to a new cache of
  positive size \<open>N\<close> never panics, and \<open>GetLast n\<close> then returns the last
  \<open>min n N\<close> messages added, oldest first.
\<close>

theorem rc_window:
  assumes "0 < sz" and "0 \<le> n"
  shows "\<exists>c. go_bind (new_recent_message_cache sz) (\<lambda>c0. rc_add_all c0 ms) = Inr c
           \<and> rc_get_last c n = Inr (keep_last (min (nat n) (nat sz)) ms)"
proof -
  obtain c0 where c0: "new_recent_message_cache sz = Inr c0" "rc_wf c0" "rc_size c0 = sz"
    "rc_contents c0 = []"
    using new_cache_wf[OF assms(1)] by blast
  obtain c where c: "rc_add_all c0 ms = Inr c" "rc_wf c" "rc_contents c = keep_last (nat sz) ms"
    using rc_add_all_window[OF c0(2), of ms] c0 by auto
  have "rc_get_last c n = Inr (keep_last (min (nat n) (nat sz)) ms)"
    using rc_get_last_eq[OF c(2) assms(2)] c(3) by (simp add: min.commute)
  with c0 c show ?thesis by auto
qed

lemma rc_window_witness:
  "\<exists>c. go_bind (new_recent_message_cache 2)
        (\<lambda>c0. rc_add_all c0 [zero_message\<lparr>msg_id := ''a''\<rparr>, zero_message\<lparr>msg_id := ''b''\<rparr>,
                            zero_message\<lparr>msg_id := ''c''\<rparr>]) = Inr c
      \<and> rc_get_last c 5 = Inr [zero_message\<lparr>msg_id := ''b''\<rparr>, zero_message\<lparr>msg_id := ''c''\<rparr>]"
  using rc_window[of 2 5 "[zero_message\<lparr>msg_id := ''a''\<rparr>, zero_message\<lparr>msg_id := ''b''\<rparr>,
                            zero_message\<lparr>msg_id := ''c''\<rparr>]"]
  by (simp add: keep_last_def)

text \<open>
  \<open>Clear\<close> and \<open>GetAll\<close>: \<open>GetAll\<close> returns the whole contents
  oldest first, and after \<open>Clear\<close> it returns nothing while the cache stays
  well-formed.
\<close>

theorem rc_clear_get_all:
  assumes "rc_wf c"
  shows "rc_get_all c = Inr (rc_contents c) \<and> rc_wf (rc_clear c)
         \<and> rc_get_all (rc_clear c) = Inr []"
proof -
  have "rc_get_all c = Inr (keep_last (nat (rc_count c)) (rc_contents c))"
    using rc_get_last_eq[OF assms] assms by (simp add: rc_get_all_def rc_wf_def)
  moreover have "rc_wf (rc_clear c)" using assms by (simp add: rc_wf_def rc_clear_def)
  ultimately show ?thesis by (simp add: rc_get_all_def rc_get_last_def rc_clear_def)
qed

lemma rc_clear_get_all_witness:
  "rc_wf \<lparr>rc_messages = [zero_message], rc_size = 1, rc_index = 0, rc_count = 1\<rparr>
   \<and> rc_get_all \<lparr>rc_messages = [zero_message], rc_size = 1, rc_index = 0, rc_count = 1\<rparr>
       = Inr [zero_message]
   \<and> rc_get_all (rc_clear \<lparr>rc_messages = [zero_message], rc_size = 1, rc_index = 0, rc_count = 1\<rparr>)
       = Inr []"
proof -
  have wf: "rc_wf \<lparr>rc_messages = [zero_message], rc_size = 1, rc_index = 0, rc_count = 1\<rparr>"
    by (simp add: rc_wf_def)
  show ?thesis
    using wf rc_clear_get_all[OF wf] by (simp add: rc_contents_def rc_slot_def)
qed

end
