(* ===== verification/CacheCopy.thy ===== *)
theory CacheCopy
  imports RecentCache
begin

text \<open>
  The package \<open>cache\<close> (\<open>src/internal/cache/recent_cache.go\<close>) declares
  its own \<open>RecentMessageCache\<close> over \<open>core.Message\<close>, line for line the
  code of the core package's cache; no other package imports it. It is a
  distinct Go type, so it is a distinct record here, with its methods
  translated from its own lines. The field-wise correspondence
  \<open>cache_to_core\<close> commutes with every method: the copy behaves exactly as
  the core cache, so the core cache's lemmas transfer to it.
\<close>

record cache_recent_cache =
  crc_messages :: "message list"
  crc_size :: int
  crc_index :: int
  crc_count :: int

definition cache_new_recent_message_cache :: "int \<Rightarrow> cache_recent_cache go_result" where
  "cache_new_recent_message_cache sz =
     (if sz < 0 then Inl MakeSliceLenOutOfRange
      else Inr \<lparr>crc_messages = replicate (nat sz) zero_message, crc_size = sz,
                crc_index = 0, crc_count = 0\<rparr>)"

definition cache_rc_add :: "cache_recent_cache \<Rightarrow> message \<Rightarrow> cache_recent_cache go_result" where
  "cache_rc_add c msg =
     go_bind (go_update (crc_messages c) (crc_index c) msg) (\<lambda>ms.
     go_bind (go_rem (crc_index c + 1) (crc_size c)) (\<lambda>idx.
       Inr (c\<lparr>crc_messages := ms, crc_index := idx,
              crc_count := (if crc_count c < crc_size c then crc_count c + 1 else crc_count c)\<rparr>)))"

definition cache_rc_get_last :: "cache_recent_cache \<Rightarrow> int \<Rightarrow> message list go_result" where
  "cache_rc_get_last c n =
     (let n = (if n > crc_count c then crc_count c else n) in
      if n = 0 then Inr []
      else if n < 0 then Inl MakeSliceLenOutOfRange
      else go_bind (go_rem (crc_index c - n + crc_size c) (crc_size c)) (\<lambda>start.
             go_index_all (crc_messages c)
               (map (\<lambda>i. (start + int i) smod crc_size c) [0..<nat n])))"

definition cache_rc_get_all :: "cache_recent_cache \<Rightarrow> message list go_result" where
  "cache_rc_get_all c = cache_rc_get_last c (crc_count c)"

definition cache_rc_clear :: "cache_recent_cache \<Rightarrow> cache_recent_cache" where
  "cache_rc_clear c = c\<lparr>crc_index := 0, crc_count := 0\<rparr>"

definition cache_rc_get_count :: "cache_recent_cache \<Rightarrow> int" where
  "cache_rc_get_count c = crc_count c"

text \<open>The correspondence of the two types, field by field.\<close>

definition cache_to_core :: "cache_recent_cache \<Rightarrow> recent_cache" where
  "cache_to_core c = \<lparr>rc_messages = crc_messages c, rc_size = crc_size c,
                      rc_index = crc_index c, rc_count = crc_count c\<rparr>"

subsection \<open>Lemmas\<close>

lemma cache_to_core_fields [simp]:
  "rc_messages (cache_to_core c) = crc_messages c" "rc_size (cache_to_core c) = crc_size c"
  "rc_index (cache_to_core c) = crc_index c" "rc_count (cache_to_core c) = crc_count c"
  by (simp_all add: cache_to_core_def)

lemma map_sum_go_bind:
  "map_sum id f (go_bind r g) = go_bind r (\<lambda>a. map_sum id f (g a))"
  by (cases r) (simp_all add: go_bind_def)

lemma cache_new_equiv:
  "map_sum id cache_to_core (cache_new_recent_message_cache sz) = new_recent_message_cache sz"
  by (simp add: cache_new_recent_message_cache_def new_recent_message_cache_def cache_to_core_def)

lemma cache_add_equiv: "map_sum id cache_to_core (cache_rc_add c m) = rc_add (cache_to_core c) m"
  by (simp add: cache_rc_add_def rc_add_def map_sum_go_bind cache_to_core_def)

lemma cache_get_last_equiv: "cache_rc_get_last c n = rc_get_last (cache_to_core c) n"
  by (simp add: cache_rc_get_last_def rc_get_last_def Let_def)

text \<open>
  The \<open>cache\<close> package's copy is equivalent to the core cache: under
  the field-wise correspondence every method gives the same result,
  panics included.
\<close>

theorem cache_copy_equivalent:
  "map_sum id cache_to_core (cache_new_recent_message_cache sz) = new_recent_message_cache sz
   \<and> map_sum id cache_to_core (cache_rc_add c m) = rc_add (cache_to_core c) m
   \<and> cache_rc_get_last c n = rc_get_last (cache_to_core c) n
   \<and> cache_rc_get_all c = rc_get_all (cache_to_core c)
   \<and> cache_to_core (cache_rc_clear c) = rc_clear (cache_to_core c)
   \<and> cache_rc_get_count c = rc_get_count (cache_to_core c)"
  by (simp add: cache_new_equiv cache_add_equiv cache_get_last_equiv cache_rc_get_all_def rc_get_all_def
                cache_rc_clear_def rc_clear_def cache_to_core_def cache_rc_get_count_def rc_get_count_def)

end
