(* ===== verification/Subscriber.thy ===== *)
theory Subscriber
  imports Message "HOL-Library.Sublist"
begin

text \<open>
  The per-client delivery actor, \<open>src/internal/core/subscriber.go\<close>.
  The Go struct holds a buffered channel (the inbox), the WebSocket
  connection, a cancellable context, a \<open>done\<close> channel, the drop strategy,
  three atomic counters and a \<open>sync.Once\<close> for \<open>Close\<close>. The record below
  keeps each of them as data:
  \<^item> \<open>sub_inbox\<close> and \<open>sub_capacity\<close>: the messages buffered in
    \<open>messageChan\<close> and its capacity;
  \<^item> \<open>sub_closed\<close>: the \<open>closeOnce\<close> body has run, so \<open>done\<close> and
    \<open>messageChan\<close> are closed and the connection is closed;
  \<^item> \<open>sub_ctx_cancelled\<close>: \<open>s.ctx\<close> is done (by \<open>Close\<close> or by the
    request context it derives from);
  \<^item> \<open>sub_frames\<close>: the frames written to the connection, in order (what the
    client has been sent);
  \<^item> \<open>sub_loop_running\<close>: the \<open>sendLoop\<close> goroutine is running.
  Counters only grow and are \<open>nat\<close>. Time is nanoseconds.

  \<open>SendMessages\<close> and \<open>handleBackPressure\<close> are one function returning the
  new state and the returned error; a send on the closed channel is a panic.
  The \<open>sendLoop\<close> goroutine is a step function over the events its
  \<open>select\<close> can take; which ready case Go picks is left to the step relation
  \<open>sub_reach\<close>, which collects every run of one subscriber.
\<close>

datatype drop_strategy = DROP_OLDEST | DROP_NEWEST | CIRCUIT_BREAKER | DropOther int

datatype send_error =
    ErrStillFullAfterDrop
  | ErrBufferFullDroppedNew
  | ErrCircuitBreakerTriggered
  | ErrUnknownDropStrategy

record subscriber =
  sub_id :: string
  sub_tenant :: string
  sub_topic :: string
  sub_inbox :: "message list"
  sub_capacity :: int
  sub_drop_strategy :: drop_strategy
  sub_dropped :: nat
  sub_received :: nat
  sub_sent :: nat
  sub_last_active :: time_ns
  sub_closed :: bool
  sub_ctx_cancelled :: bool
  sub_frames :: "message list"
  sub_loop_running :: bool

text \<open>\<open>NewSubscriber\<close>: \<open>make(chan Message, bufferSize)\<close> panics on a negative size.\<close>

definition new_subscriber ::
  "string \<Rightarrow> string \<Rightarrow> string \<Rightarrow> int \<Rightarrow> time_ns \<Rightarrow> subscriber go_result" where
  "new_subscriber i tenant topic buffer_size now =
     (if buffer_size < 0 then Inl MakeChanSizeOutOfRange
      else Inr \<lparr>sub_id = i, sub_tenant = tenant, sub_topic = topic, sub_inbox = [],
                sub_capacity = buffer_size, sub_drop_strategy = DROP_OLDEST,
                sub_dropped = 0, sub_received = 0, sub_sent = 0, sub_last_active = now,
                sub_closed = False, sub_ctx_cancelled = False, sub_frames = [],
                sub_loop_running = False\<rparr>)"

definition sub_start :: "subscriber \<Rightarrow> subscriber" where
  "sub_start s = s\<lparr>sub_loop_running := True\<rparr>"

text \<open>
  \<open>Close\<close>: the \<open>sync.Once\<close> body cancels the context, closes \<open>done\<close>,
  closes the connection and closes \<open>messageChan\<close>; a second call does
  nothing. Buffered messages stay readable from the closed channel.
\<close>

definition sub_close :: "subscriber \<Rightarrow> subscriber" where
  "sub_close s = (if sub_closed s then s else s\<lparr>sub_closed := True, sub_ctx_cancelled := True\<rparr>)"

text \<open>The request context the subscriber's context derives from is done.\<close>

definition sub_cancel_parent :: "subscriber \<Rightarrow> subscriber" where
  "sub_cancel_parent s = s\<lparr>sub_ctx_cancelled := True\<rparr>"

text \<open>
  A non-blocking send succeeds when the buffer has room. (An unbuffered
  channel, capacity 0, hands a message over only when the loop is parked in its
  \<open>select\<close>; the model treats it as always full. The buffer manager never
  gives a capacity below 100.)
\<close>

definition chan_has_room :: "subscriber \<Rightarrow> bool" where
  "chan_has_room s \<longleftrightarrow> int (length (sub_inbox s)) < sub_capacity s"

text \<open>
  \<open>handleBackPressure\<close> (lines 71--104). Under \<open>DROP_OLDEST\<close> the
  receive of the oldest message and the re-send (lines 74--86) are one step
  of the model. The caller holds no lock, so in Go another publisher may
  refill the freed slot in between and make the re-send fail
  (\<open>ErrStillFullAfterDrop\<close>, one more drop); that interleaving is not a
  run of the model, whose lemmas are about one sender at a time.
\<close>

definition handle_back_pressure ::
  "subscriber \<Rightarrow> message \<Rightarrow> subscriber \<times> send_error option" where
  "handle_back_pressure s msg =
     (case sub_drop_strategy s of
        DROP_OLDEST \<Rightarrow>
          (let s1 = (case sub_inbox s of
                       [] \<Rightarrow> s
                     | _ # rest \<Rightarrow> s\<lparr>sub_inbox := rest, sub_dropped := sub_dropped s + 1\<rparr>)
           in if chan_has_room s1 then (s1\<lparr>sub_inbox := sub_inbox s1 @ [msg]\<rparr>, None)
              else (s1\<lparr>sub_dropped := sub_dropped s1 + 1\<rparr>, Some ErrStillFullAfterDrop))
      | DROP_NEWEST \<Rightarrow> (s\<lparr>sub_dropped := sub_dropped s + 1\<rparr>, Some ErrBufferFullDroppedNew)
      | CIRCUIT_BREAKER \<Rightarrow>
          (if sub_dropped s > 100 then (sub_close s, Some ErrCircuitBreakerTriggered)
           else (s, None))
      | DropOther _ \<Rightarrow> (s\<lparr>sub_dropped := sub_dropped s + 1\<rparr>, Some ErrUnknownDropStrategy))"

definition send_messages ::
  "subscriber \<Rightarrow> message \<Rightarrow> (subscriber \<times> send_error option) go_result" where
  "send_messages s msg =
     (let s = s\<lparr>sub_received := sub_received s + 1\<rparr> in
      if sub_closed s then Inl SendOnClosedChannel
      else if chan_has_room s then Inr (s\<lparr>sub_inbox := sub_inbox s @ [msg]\<rparr>, None)
      else Inr (handle_back_pressure s msg))"

text \<open>
  The cases of the \<open>select\<close> in \<open>sendLoop\<close>. The Boolean of a receive or a
  tick is whether the client side of the connection accepts the write or the
  ping; a write or ping on a closed connection or under a cancelled context
  fails whatever the client does.
\<close>

datatype loop_event = LoopRecv bool | LoopTick bool | LoopDone | LoopCtxDone

datatype loop_outcome = Delivered message | LostOnWriteFailure message | NoMessage

definition transport_ok :: "subscriber \<Rightarrow> bool" where
  "transport_ok s \<longleftrightarrow> \<not> sub_closed s \<and> \<not> sub_ctx_cancelled s"

definition loop_exit :: "subscriber \<Rightarrow> subscriber" where
  "loop_exit s = s\<lparr>sub_loop_running := False\<rparr>"

text \<open>\<open>None\<close>: the case is not ready, \<open>select\<close> cannot take it.\<close>

definition send_loop_step ::
  "time_ns \<Rightarrow> loop_event \<Rightarrow> subscriber \<Rightarrow> (subscriber \<times> loop_outcome) option" where
  "send_loop_step now ev s =
     (if \<not> sub_loop_running s then None
      else case ev of
        LoopRecv ok \<Rightarrow>
          (case sub_inbox s of
             [] \<Rightarrow> if sub_closed s then Some (loop_exit s, NoMessage) else None
           | msg # rest \<Rightarrow>
               (let s1 = s\<lparr>sub_inbox := rest\<rparr> in
                if ok \<and> transport_ok s
                then Some (s1\<lparr>sub_frames := sub_frames s1 @ [msg], sub_sent := sub_sent s1 + 1,
                              sub_last_active := now\<rparr>, Delivered msg)
                else Some (loop_exit (sub_close s1), LostOnWriteFailure msg)))
      | LoopTick ok \<Rightarrow>
          (if ok \<and> transport_ok s then Some (s, NoMessage)
           else Some (loop_exit (sub_close s), NoMessage))
      | LoopDone \<Rightarrow> (if sub_closed s then Some (loop_exit s, NoMessage) else None)
      | LoopCtxDone \<Rightarrow> (if sub_ctx_cancelled s then Some (loop_exit s, NoMessage) else None))"

definition sub_get_metrics :: "subscriber \<Rightarrow> nat \<times> nat \<times> nat" where
  "sub_get_metrics s = (sub_received s, sub_sent s, sub_dropped s)"

text \<open>
  \<open>IsHealthy\<close> compares the float quotient \<open>dropped / received\<close> with
  \<open>0.1\<close>; the model uses the exact quotient, which agrees with the float
  comparison for counts below \<open>10^15\<close>.
\<close>

definition sub_is_healthy :: "time_ns \<Rightarrow> subscriber \<Rightarrow> bool" where
  "sub_is_healthy now s =
     (if now - sub_last_active s > 60 * 1000000000 then False
      else if sub_received s > 0
           then \<not> (real (sub_dropped s) / real (sub_received s) > 1 / 10)
           else True)"

definition sub_is_slow :: "subscriber \<Rightarrow> bool" where
  "sub_is_slow s \<longleftrightarrow> sub_dropped s > 0"

fun lost_count :: "loop_outcome \<Rightarrow> nat" where
  "lost_count (LostOnWriteFailure _) = 1"
| "lost_count _ = 0"

text \<open>
  Every run of one subscriber: created, its strategy field set to \<open>d\<close>,
  started, then any interleaving of
  sends, loop steps, \<open>Close\<close> calls and cancellation of the parent context.
  The index \<open>ins\<close> is the sequence of messages offered to
  \<open>SendMessages\<close>, \<open>k\<close> the number of messages dequeued and lost by a
  failed write. \<open>NewSubscriber\<close> always sets \<open>DROP_OLDEST\<close>
  (\<open>subscriber.go\<close>, line 50) and nothing assigns the field afterwards, so
  the runs of the program are those with \<open>d = DROP_OLDEST\<close>; the start
  rule deliberately allows any strategy, so that the lemmas over
  \<open>sub_reach\<close> hold for every branch of \<open>handleBackPressure\<close>, and a
  fortiori for the runs the program has.
\<close>

inductive sub_reach :: "subscriber \<Rightarrow> message list \<Rightarrow> nat \<Rightarrow> bool" where
  start: "new_subscriber i tenant topic buf now = Inr s0 \<Longrightarrow>
          sub_reach (sub_start (s0\<lparr>sub_drop_strategy := d\<rparr>)) [] 0"
| send: "sub_reach s ins k \<Longrightarrow> send_messages s msg = Inr (s', r) \<Longrightarrow>
          sub_reach s' (ins @ [msg]) k"
| loop: "sub_reach s ins k \<Longrightarrow> send_loop_step now ev s = Some (s', out) \<Longrightarrow>
          sub_reach s' ins (k + lost_count out)"
| close: "sub_reach s ins k \<Longrightarrow> sub_reach (sub_close s) ins k"
| cancel: "sub_reach s ins k \<Longrightarrow> sub_reach (sub_cancel_parent s) ins k"

definition sub_inv :: "subscriber \<Rightarrow> message list \<Rightarrow> nat \<Rightarrow> bool" where
  "sub_inv s ins k \<longleftrightarrow>
     0 \<le> sub_capacity s \<and> int (length (sub_inbox s)) \<le> sub_capacity s
     \<and> subseq (sub_frames s @ sub_inbox s) ins
     \<and> sub_sent s = length (sub_frames s)
     \<and> sub_received s = length ins
     \<and> k \<le> 1 \<and> (k = 1 \<longrightarrow> \<not> sub_loop_running s \<and> sub_closed s)
     \<and> (sub_drop_strategy s \<noteq> CIRCUIT_BREAKER \<longrightarrow>
          sub_received s = sub_sent s + sub_dropped s + length (sub_inbox s) + k)
     \<and> (sub_drop_strategy s = CIRCUIT_BREAKER \<longrightarrow> sub_dropped s = 0)"

text \<open>A sequence of \<open>SendMessages\<close> calls, stopping at the first panic.\<close>

fun sub_send_all :: "subscriber \<Rightarrow> message list \<Rightarrow> (subscriber \<times> send_error option list) go_result" where
  "sub_send_all s [] = Inr (s, [])"
| "sub_send_all s (m # ms) =
     go_bind (send_messages s m) (\<lambda>(s1, r).
       go_bind (sub_send_all s1 ms) (\<lambda>(s2, rs). Inr (s2, r # rs)))"

text \<open>
  The overflow scenario S4 of the specification: capacity 2, transport stalled,
  four messages published.
\<close>

definition s4_sends :: "message list" where
  "s4_sends = map example_message [''m1'', ''m2'', ''m3'', ''m4'']"

abbreviation s4_state :: subscriber where
  "s4_state \<equiv> \<lparr>sub_id = ''s'', sub_tenant = ''default-tenant'', sub_topic = ''t1'',
           sub_inbox = [example_message ''m3'', example_message ''m4''],
           sub_capacity = 2, sub_drop_strategy = DROP_OLDEST, sub_dropped = 2,
           sub_received = 4, sub_sent = 0, sub_last_active = 0, sub_closed = False,
           sub_ctx_cancelled = False, sub_frames = [], sub_loop_running = True\<rparr>"

declare new_subscriber_def [go_eval] sub_start_def [go_eval] sub_close_def [go_eval]
  sub_cancel_parent_def [go_eval] chan_has_room_def [go_eval]
  handle_back_pressure_def [go_eval] send_messages_def [go_eval] transport_ok_def [go_eval]
  loop_exit_def [go_eval] send_loop_step_def [go_eval]


subsection \<open>Invariant preservation\<close>

lemma subseq_drop_front:
  "subseq (xs @ y # ys) zs \<Longrightarrow> subseq (xs @ ys) zs"
proof -
  assume a: "subseq (xs @ y # ys) zs"
  have "subseq (xs @ ys) (xs @ y # ys)" by (simp add: subseq_append' list_emb_Cons)
  then show ?thesis using a by (rule subseq_order.trans)
qed

lemma sub_close_fields [simp]:
  "sub_inbox (sub_close s) = sub_inbox s"
  "sub_capacity (sub_close s) = sub_capacity s"
  "sub_drop_strategy (sub_close s) = sub_drop_strategy s"
  "sub_dropped (sub_close s) = sub_dropped s"
  "sub_received (sub_close s) = sub_received s"
  "sub_sent (sub_close s) = sub_sent s"
  "sub_frames (sub_close s) = sub_frames s"
  "sub_loop_running (sub_close s) = sub_loop_running s"
  "sub_closed (sub_close s)"
  by (simp_all add: sub_close_def)

lemma sub_inv_start [inv_step]:
  "new_subscriber i tenant topic buf now = Inr s0 \<Longrightarrow>
   sub_inv (sub_start (s0\<lparr>sub_drop_strategy := d\<rparr>)) [] 0"
  by (auto simp: new_subscriber_def sub_start_def sub_inv_def split: if_splits)

lemma sub_inv_close [inv_step]: "sub_inv s ins k \<Longrightarrow> sub_inv (sub_close s) ins k"
  by (auto simp: sub_inv_def)

lemma sub_inv_cancel [inv_step]: "sub_inv s ins k \<Longrightarrow> sub_inv (sub_cancel_parent s) ins k"
  by (auto simp: sub_inv_def sub_cancel_parent_def)

lemma sub_inv_back_pressure:
  assumes inv: "sub_inv s ins k" and full: "\<not> chan_has_room s"
    and hb: "handle_back_pressure (s\<lparr>sub_received := Suc (sub_received s)\<rparr>) msg = (s', r)"
  shows "sub_inv s' (ins @ [msg]) k"
proof (cases "sub_drop_strategy s")
  case DROP_OLDEST
  show ?thesis
  proof (cases "sub_inbox s")
    case Nil
    with full inv hb DROP_OLDEST show ?thesis
      by (auto simp: handle_back_pressure_def chan_has_room_def sub_inv_def subseq_rev_drop_many)
  next
    case (Cons m0 rest)
    have sq: "subseq (sub_frames s @ rest) ins"
      using inv Cons by (auto simp: sub_inv_def intro: subseq_drop_front)
    with full inv hb DROP_OLDEST Cons show ?thesis
      by (auto simp: handle_back_pressure_def chan_has_room_def sub_inv_def subseq_rev_drop_many
               simp flip: append_assoc split: if_splits)
  qed
next
  case DROP_NEWEST
  with inv hb show ?thesis
    by (auto simp: handle_back_pressure_def sub_inv_def subseq_rev_drop_many)
next
  case CIRCUIT_BREAKER
  with inv hb show ?thesis
    by (auto simp: handle_back_pressure_def sub_inv_def subseq_rev_drop_many)
next
  case (DropOther x)
  with inv hb show ?thesis
    by (auto simp: handle_back_pressure_def sub_inv_def subseq_rev_drop_many)
qed

lemma sub_inv_send [inv_step]:
  assumes inv: "sub_inv s ins k" and snd: "send_messages s msg = Inr (s', r)"
  shows "sub_inv s' (ins @ [msg]) k"
proof -
  let ?s1 = "s\<lparr>sub_received := Suc (sub_received s)\<rparr>"
  have nc: "\<not> sub_closed s" using snd by (auto simp: send_messages_def Let_def split: if_splits)
  have room: "chan_has_room ?s1 = chan_has_room s" by (simp add: chan_has_room_def)
  show ?thesis
  proof (cases "chan_has_room s")
    case True
    with snd nc room have "s' = ?s1\<lparr>sub_inbox := sub_inbox s @ [msg]\<rparr>"
      by (simp add: send_messages_def Let_def)
    with inv True show ?thesis
      by (auto simp: chan_has_room_def sub_inv_def simp flip: append_assoc)
  next
    case False
    with snd nc room have "handle_back_pressure ?s1 msg = (s', r)"
      by (simp add: send_messages_def Let_def)
    with inv False show ?thesis by (rule sub_inv_back_pressure)
  qed
qed

lemma sub_inv_loop [inv_step]:
  assumes inv: "sub_inv s ins k" and st: "send_loop_step now ev s = Some (s', out)"
  shows "sub_inv s' ins (k + lost_count out)"
proof (cases ev)
  case (LoopRecv ok)
  show ?thesis
  proof (cases "sub_inbox s")
    case Nil
    with inv st LoopRecv show ?thesis
      by (auto simp: send_loop_step_def loop_exit_def sub_inv_def split: if_splits)
  next
    case (Cons m0 rest)
    have sq: "subseq (sub_frames s @ rest) ins"
      using inv Cons by (auto simp: sub_inv_def intro: subseq_drop_front)
    with inv st LoopRecv Cons show ?thesis
      by (auto simp: send_loop_step_def loop_exit_def sub_inv_def Let_def split: if_splits)
  qed
next
  case (LoopTick ok)
  with inv st show ?thesis
    by (auto simp: send_loop_step_def loop_exit_def sub_inv_def split: if_splits)
next
  case LoopDone
  with inv st show ?thesis
    by (auto simp: send_loop_step_def loop_exit_def sub_inv_def split: if_splits)
next
  case LoopCtxDone
  with inv st show ?thesis
    by (auto simp: send_loop_step_def loop_exit_def sub_inv_def split: if_splits)
qed

lemma sub_reach_inv: "sub_reach s ins k \<Longrightarrow> sub_inv s ins k"
  by (induction rule: sub_reach.induct) (auto intro: inv_step)

lemma sub_reach_send_all:
  "sub_reach s ins k \<Longrightarrow> sub_send_all s ms = Inr (s', rs) \<Longrightarrow> sub_reach s' (ins @ ms) k"
proof (induction ms arbitrary: s ins rs)
  case Nil
  then show ?case by simp
next
  case (Cons m ms)
  from Cons.prems(2) obtain s1 r rs1 where
    s1: "send_messages s m = Inr (s1, r)" and rest: "sub_send_all s1 ms = Inr (s', rs1)"
    by (auto split: prod.splits)
  have "sub_reach s1 (ins @ [m]) k" using Cons.prems(1) s1 by (rule sub_reach.send)
  from Cons.IH[OF this rest] show ?case by simp
qed

lemma sub_reach_started:
  assumes "new_subscriber i tenant topic buf now = Inr s0"
  shows "sub_reach (sub_start s0) [] 0"
proof -
  have "s0\<lparr>sub_drop_strategy := DROP_OLDEST\<rparr> = s0"
    using assms by (auto simp: new_subscriber_def split: if_splits)
  with sub_reach.start[OF assms, of DROP_OLDEST] show ?thesis by simp
qed

lemma example_message_eq [simp]: "example_message a = example_message b \<longleftrightarrow> a = b"
  by (simp add: example_message_def zero_message_def)

lemma s4_run:
  "go_bind (new_subscriber ''s'' ''default-tenant'' ''t1'' 2 0)
     (\<lambda>s0. sub_send_all (sub_start s0) s4_sends)
   = Inr (\<lparr>sub_id = ''s'', sub_tenant = ''default-tenant'', sub_topic = ''t1'',
           sub_inbox = [example_message ''m3'', example_message ''m4''],
           sub_capacity = 2, sub_drop_strategy = DROP_OLDEST, sub_dropped = 2,
           sub_received = 4, sub_sent = 0, sub_last_active = 0, sub_closed = False,
           sub_ctx_cancelled = False, sub_frames = [], sub_loop_running = True\<rparr>,
          [None, None, None, None])"
  by (simp add: go_eval s4_sends_def)

lemma s4_reach: "sub_reach s4_state s4_sends 0"
proof -
  have "sub_reach (sub_start (projr (new_subscriber ''s'' ''default-tenant'' ''t1'' 2 0))) [] 0"
    by (rule sub_reach_started [of "''s''" "''default-tenant''" "''t1''" 2 0])
       (simp add: new_subscriber_def)
  moreover have "sub_send_all (sub_start (projr (new_subscriber ''s'' ''default-tenant'' ''t1'' 2 0))) s4_sends
                 = Inr (s4_state, [None, None, None, None])"
    using s4_run by (simp add: new_subscriber_def)
  ultimately show ?thesis using sub_reach_send_all by fastforce
qed

subsection \<open>Properties\<close>

text \<open>
  C3 (drop accounting). For the drop strategies other than the circuit breaker,
  every message offered is either written to the connection, counted as
  dropped, still in the inbox, or the one message a failed write dequeued and
  lost; at most one message is lost that way.
\<close>

theorem sub_drop_accounting:
  assumes "sub_reach s ins k" and "sub_drop_strategy s \<noteq> CIRCUIT_BREAKER"
  shows "sub_received s = sub_sent s + sub_dropped s + length (sub_inbox s) + k \<and> k \<le> 1"
  using sub_reach_inv[OF assms(1)] assms(2) by (simp add: sub_inv_def)

lemma sub_drop_accounting_witness:
  "sub_reach s4_state s4_sends 0 \<and> sub_drop_strategy s4_state \<noteq> CIRCUIT_BREAKER
   \<and> sub_received s4_state = sub_sent s4_state + sub_dropped s4_state
        + length (sub_inbox s4_state) + 0"
  using s4_reach sub_drop_accounting[OF s4_reach] by simp

text \<open>
  C4 (delivery order). The frames written to the connection followed by the
  messages still buffered form a subsequence of the messages offered to
  \<open>SendMessages\<close>: nothing is reordered, duplicated or invented, and
  \<open>messagesSent\<close> counts the frames.
\<close>

theorem sub_delivery_order:
  "sub_reach s ins k \<Longrightarrow> subseq (sub_frames s @ sub_inbox s) ins \<and> sub_sent s = length (sub_frames s)"
  using sub_reach_inv by (simp add: sub_inv_def)

lemma sub_delivery_order_witness:
  "sub_reach s4_state s4_sends 0
   \<and> subseq (sub_frames s4_state @ sub_inbox s4_state) s4_sends \<and> sub_sent s4_state = 0"
  using s4_reach sub_delivery_order[OF s4_reach] by simp

text \<open>
  C5 (send after a failed write panics). Once the delivery loop has lost a
  message to a failed write it has closed the subscriber, and the next
  \<open>SendMessages\<close>, from a publisher that still holds it in its snapshot,
  sends on the closed channel and panics.
\<close>

theorem sub_send_after_write_failure_panics:
  assumes "sub_reach s ins k" and "k = 1"
  shows "send_messages s msg = Inl SendOnClosedChannel"
  using sub_reach_inv[OF assms(1)] assms(2) by (simp add: sub_inv_def send_messages_def)

lemma sub_send_after_write_failure_panics_witness:
  "sub_reach (loop_exit (sub_close (s4_state\<lparr>sub_inbox := [example_message ''m4'']\<rparr>))) s4_sends 1
   \<and> (1::nat) = 1
   \<and> send_messages (loop_exit (sub_close (s4_state\<lparr>sub_inbox := [example_message ''m4'']\<rparr>)))
       (example_message ''m5'') = Inl SendOnClosedChannel"
proof -
  have "send_loop_step 5 (LoopRecv False) s4_state
        = Some (loop_exit (sub_close (s4_state\<lparr>sub_inbox := [example_message ''m4'']\<rparr>)),
                LostOnWriteFailure (example_message ''m3''))"
    by (simp add: send_loop_step_def)
  from sub_reach.loop[OF s4_reach this] have r: "sub_reach (loop_exit (sub_close (s4_state\<lparr>sub_inbox := [example_message ''m4'']\<rparr>))) s4_sends 1"
    by simp
  show ?thesis using r sub_send_after_write_failure_panics[OF r] by simp
qed

text \<open>
  Scenario S4, drop-oldest: Capacity 2, stalled transport, four messages
  published: every send succeeds, the inbox holds the last two, two are counted
  dropped and four received; when the transport resumes the client receives
  exactly the last two, in order.
\<close>

theorem sub_drop_oldest_scenario:
  "\<exists>s. go_bind (new_subscriber ''s'' ''default-tenant'' ''t1'' 2 0)
         (\<lambda>s0. sub_send_all (sub_start s0) s4_sends) = Inr (s, [None, None, None, None])
     \<and> sub_inbox s = [example_message ''m3'', example_message ''m4'']
     \<and> sub_dropped s = 2 \<and> sub_received s = 4
     \<and> (\<exists>s'. Option.bind (send_loop_step 7 (LoopRecv True) s) (\<lambda>(s1, _). send_loop_step 8 (LoopRecv True) s1)
               = Some (s', Delivered (example_message ''m4''))
            \<and> sub_frames s' = [example_message ''m3'', example_message ''m4''] \<and> sub_sent s' = 2)"
  using s4_run by (simp add: go_eval)

text \<open>
  C6 (close). \<open>Close\<close> is idempotent, and once a subscriber is closed every
  step its delivery loop can take ends the loop without writing a frame.
\<close>

theorem sub_close_terminates:
  assumes "sub_closed s" and "send_loop_step now ev s = Some (s', out)"
  shows "sub_close (sub_close s) = sub_close s
         \<and> sub_frames s' = sub_frames s \<and> \<not> sub_loop_running s'"
  using assms
  by (auto simp: sub_close_def send_loop_step_def transport_ok_def loop_exit_def Let_def
           split: loop_event.splits list.splits if_splits)

lemma sub_close_terminates_witness:
  "sub_closed (sub_close s4_state)
   \<and> send_loop_step 9 LoopDone (sub_close s4_state) = Some (loop_exit (sub_close s4_state), NoMessage)
   \<and> sub_close (sub_close (sub_close s4_state)) = sub_close (sub_close s4_state)
   \<and> sub_frames (loop_exit (sub_close s4_state)) = sub_frames (sub_close s4_state)
   \<and> \<not> sub_loop_running (loop_exit (sub_close s4_state))"
proof -
  have st: "send_loop_step 9 LoopDone (sub_close s4_state) = Some (loop_exit (sub_close s4_state), NoMessage)"
    by (simp add: send_loop_step_def sub_close_def)
  have cl: "sub_closed (sub_close s4_state)" by (simp add: sub_close_def)
  show ?thesis using cl st sub_close_terminates[OF cl st] by simp
qed

text \<open>
  C7 (health predicate). \<open>IsHealthy\<close> holds exactly when the subscriber was
  active in the last 60 seconds and, if it received anything, at most a tenth of
  what it received was dropped: the float test as an integer comparison.
\<close>

theorem sub_is_healthy_iff:
  "sub_is_healthy now s \<longleftrightarrow>
     now - sub_last_active s \<le> 60 * 1000000000
     \<and> (sub_received s = 0 \<or> 10 * sub_dropped s \<le> sub_received s)"
proof -
  have "real (sub_dropped s) / real (sub_received s) > 1 / 10 \<longleftrightarrow> 10 * sub_dropped s > sub_received s"
    if "sub_received s > 0"
  proof -
    have "real (sub_dropped s) / real (sub_received s) > 1 / 10
          \<longleftrightarrow> real (sub_received s) < 10 * real (sub_dropped s)"
      using that by (simp add: field_simps)
    also have "\<dots> \<longleftrightarrow> 10 * sub_dropped s > sub_received s"
      by linarith
    finally show ?thesis .
  qed
  then show ?thesis by (auto simp: sub_is_healthy_def not_less)
qed

end
