(* ===== verification/BufferManager.thy ===== *)
theory BufferManager
  imports Prelude
begin

text \<open>
  The adaptive buffer manager, \<open>src/unnamed/part_002\<close> (package
  \<open>buffer\<close>, \<open>AddaptiveBufferManager\<close>). It keeps the configured memory
  budget (\<open>int64\<close>), an atomic subscriber count and an atomic buffer size
  (both \<open>int32\<close>), and a stop channel; a goroutine recalculates the size every
  five seconds from the heap in use. The integers are machine words here:
  \<open>int32\<close> is \<open>32 word\<close> and \<open>int64\<close> is \<open>64 word\<close>, read as signed with
  \<open>sint\<close>; \<open>+\<close> and \<open>-\<close> wrap, the conversion \<open>int32(x)\<close> keeps the low 32
  bits (\<open>ucast\<close>), \<open>int64(x)\<close> of an \<open>int32\<close> sign-extends (\<open>scast\<close>),
  and \<open>/\<close> truncates towards zero (\<open>sdiv\<close> on the signed values).
  The heap size \<open>m.Alloc\<close> (a \<open>uint64\<close>) is an input of the recalculation;
  \<open>int64(m.Alloc)\<close> keeps its bits.
\<close>

type_synonym int32 = "32 word"
type_synonym int64 = "64 word"

record buffer_manager =
  bm_max_total_memory :: int64
  bm_subscriber_count :: int32
  bm_buffer_size :: int32
  bm_stopped :: bool
  bm_monitor_running :: bool

definition min_buffer_size :: int32 where "min_buffer_size = 100"
definition max_buffer_size :: int32 where "max_buffer_size = 1000"
definition avg_mess_size :: int64 where "avg_mess_size = 1024"

text \<open>Go's signed \<open>int64\<close> division, truncating and wrapping.\<close>

definition div64 :: "int64 \<Rightarrow> int64 \<Rightarrow> int64" where
  "div64 a b = word_of_int (sint a sdiv sint b)"

definition new_adaptive_buffer_manager :: "int64 \<Rightarrow> buffer_manager" where
  "new_adaptive_buffer_manager max_memory =
     \<lparr>bm_max_total_memory = max_memory, bm_subscriber_count = 0,
      bm_buffer_size = max_buffer_size, bm_stopped = False, bm_monitor_running = False\<rparr>"

definition bm_start :: "buffer_manager \<Rightarrow> buffer_manager" where
  "bm_start bm = bm\<lparr>bm_monitor_running := True\<rparr>"

text \<open>
  \<open>recalculate\<close>: nothing happens without subscribers; otherwise the free
  budget (never negative) is shared out per subscriber, divided by the average
  message size, truncated to \<open>int32\<close> and clamped to \<open>[100, 1000]\<close> by two
  consecutive tests.
\<close>

definition recalculate :: "64 word \<Rightarrow> buffer_manager \<Rightarrow> buffer_manager" where
  "recalculate alloc bm =
     (let sub_count = bm_subscriber_count bm in
      if sub_count = 0 then bm
      else
        let current_memory = alloc;
            available = bm_max_total_memory bm - current_memory;
            available = (if sint available < 0 then 0 else available);
            memory_per_sub = div64 available (scast sub_count);
            buffer_per_sub = (ucast (div64 memory_per_sub avg_mess_size) :: int32);
            buffer_per_sub = (if sint buffer_per_sub < sint min_buffer_size
                              then min_buffer_size else buffer_per_sub);
            buffer_per_sub = (if sint buffer_per_sub > sint max_buffer_size
                              then max_buffer_size else buffer_per_sub)
        in bm\<lparr>bm_buffer_size := buffer_per_sub\<rparr>)"

text \<open>
  \<open>monitorLoop\<close>: each tick of the running loop recalculates with the heap
  size of that moment; the loop ends when it sees the stop channel closed.
\<close>

datatype bm_event = BmTick "64 word" | BmStopSeen

definition bm_monitor_step :: "bm_event \<Rightarrow> buffer_manager \<Rightarrow> buffer_manager option" where
  "bm_monitor_step ev bm =
     (if \<not> bm_monitor_running bm then None
      else case ev of
        BmTick alloc \<Rightarrow> Some (recalculate alloc bm)
      | BmStopSeen \<Rightarrow> (if bm_stopped bm then Some (bm\<lparr>bm_monitor_running := False\<rparr>) else None))"

definition get_buffer_size :: "buffer_manager \<Rightarrow> int" where
  "get_buffer_size bm = sint (bm_buffer_size bm)"

definition add_new_subscriber :: "buffer_manager \<Rightarrow> buffer_manager" where
  "add_new_subscriber bm = bm\<lparr>bm_subscriber_count := bm_subscriber_count bm + 1\<rparr>"

definition on_subscriber_removal :: "buffer_manager \<Rightarrow> buffer_manager" where
  "on_subscriber_removal bm = bm\<lparr>bm_subscriber_count := bm_subscriber_count bm - 1\<rparr>"

text \<open>\<open>Stop\<close> closes the stop channel; closing it a second time panics.\<close>

definition bm_stop :: "buffer_manager \<Rightarrow> buffer_manager go_result" where
  "bm_stop bm = (if bm_stopped bm then Inl CloseOfClosedChannel else Inr (bm\<lparr>bm_stopped := True\<rparr>))"

text \<open>The specification's formula: the free budget per subscriber in messages, clamped.\<close>

definition spec_buffer_size :: "int \<Rightarrow> int \<Rightarrow> int \<Rightarrow> int" where
  "spec_buffer_size max_mem alloc count =
     max 100 (min 1000 (max 0 (max_mem - alloc) div max 1 count div 1024))"

inductive bm_reach :: "buffer_manager \<Rightarrow> bool" where
  new: "bm_reach (new_adaptive_buffer_manager m)"
| start: "bm_reach bm \<Longrightarrow> bm_reach (bm_start bm)"
| monitor: "bm_reach bm \<Longrightarrow> bm_monitor_step ev bm = Some bm' \<Longrightarrow> bm_reach bm'"
| add: "bm_reach bm \<Longrightarrow> bm_reach (add_new_subscriber bm)"
| remove: "bm_reach bm \<Longrightarrow> bm_reach (on_subscriber_removal bm)"
| stop: "bm_reach bm \<Longrightarrow> bm_stop bm = Inr bm' \<Longrightarrow> bm_reach bm'"


subsection \<open>Machine-integer lemmas\<close>

lemma sint_sub_nonneg:
  fixes a b :: int64
  assumes "0 \<le> sint a" "0 \<le> sint b"
  shows "sint (a - b) = sint a - sint b"
proof -
  have "sint a < 2 ^ 63" "sint b < 2 ^ 63" using sint_lt[of a] sint_lt[of b] by simp_all
  then show ?thesis using assms
    by (simp add: sint_word_diff signed_take_bit_int_eq_self)
qed

lemma sint_div64:
  assumes "0 \<le> sint a" "0 < sint b"
  shows "sint (div64 a b) = sint a div sint b"
proof -
  have lt: "sint a < 2 ^ 63" using sint_lt[of a] by simp
  have q: "0 \<le> sint a div sint b" "sint a div sint b \<le> sint a"
    using assms zdiv_mono2[of "sint a" 1 "sint b"] by (simp_all add: pos_imp_zdiv_nonneg_iff)
  have "sint a sdiv sint b = sint a div sint b" using assms by simp
  then show ?thesis using q lt
    by (simp add: div64_def sint_sbintrunc' signed_take_bit_int_eq_self)
qed

lemma sint_scast_32_64: "sint (scast (w :: int32) :: int64) = sint w"
  by (rule sint_up_scast) (simp add: is_up)

lemma sint_ucast_64_32:
  assumes "0 \<le> sint (w :: int64)" "sint w < 2 ^ 31"
  shows "sint (ucast w :: int32) = sint w"
proof -
  have "uint w = sint w" using assms by (simp add: uint_sint take_bit_int_eq_self)
  then show ?thesis using assms by (simp add: signed_ucast_eq signed_take_bit_int_eq_self)
qed
lemma sint_ucast_64_32_wrap:
  assumes "2 ^ 31 \<le> sint (w :: int64)" "sint w < 2 ^ 32"
  shows "sint (ucast w :: int32) = sint w - 2 ^ 32"
proof -
  have "uint w = sint w" using assms by (simp add: uint_sint take_bit_int_eq_self)
  moreover have "signed_take_bit 31 (sint w) = sint w - 2 ^ 32"
  proof -
    have "signed_take_bit 31 (sint w) = take_bit 32 (sint w + 2 ^ 31) - 2 ^ 31"
      by (simp add: signed_take_bit_eq_take_bit_shift)
    also have "take_bit 32 (sint w + 2 ^ 31) = sint w + 2 ^ 31 - 2 ^ 32"
      using assms by (simp add: take_bit_eq_mod mod_pos_geq)
    finally show ?thesis by simp
  qed
  ultimately show ?thesis by (simp add: signed_ucast_eq)
qed

lemma recalculate_quotient:
  assumes m: "0 \<le> sint (bm_max_total_memory bm)" and a: "0 \<le> sint alloc"
    and c: "0 < sint (bm_subscriber_count bm)"
  shows "sint (div64 (div64 (if sint (bm_max_total_memory bm - alloc) < 0 then 0 else bm_max_total_memory bm - alloc)
                            (scast (bm_subscriber_count bm))) avg_mess_size)
         = max 0 (sint (bm_max_total_memory bm) - sint alloc) div sint (bm_subscriber_count bm) div 1024"
proof -
  define avail :: int64 where "avail = (if sint (bm_max_total_memory bm - alloc) < 0 then 0
                                        else bm_max_total_memory bm - alloc)"
  have d: "sint (bm_max_total_memory bm - alloc) = sint (bm_max_total_memory bm) - sint alloc"
    using m a by (simp add: sint_sub_nonneg)
  have av: "sint avail = max 0 (sint (bm_max_total_memory bm) - sint alloc)" by (simp add: avail_def d)
  have sc: "sint (scast (bm_subscriber_count bm) :: int64) = sint (bm_subscriber_count bm)"
    by (rule sint_scast_32_64)
  have per: "sint (div64 avail (scast (bm_subscriber_count bm)))
             = max 0 (sint (bm_max_total_memory bm) - sint alloc) div sint (bm_subscriber_count bm)"
    using sint_div64[of avail "scast (bm_subscriber_count bm)"] av sc c by simp
  have "sint (div64 (div64 avail (scast (bm_subscriber_count bm))) avg_mess_size)
        = max 0 (sint (bm_max_total_memory bm) - sint alloc) div sint (bm_subscriber_count bm) div 1024"
    using sint_div64[of "div64 avail (scast (bm_subscriber_count bm))" avg_mess_size] per c
    by (simp add: avg_mess_size_def pos_imp_zdiv_nonneg_iff)
  then show ?thesis by (simp add: avail_def)
qed

lemma sint_clamp:
  fixes b :: int32
  defines "b1 \<equiv> (if sint b < sint min_buffer_size then min_buffer_size else b)"
  defines "b2 \<equiv> (if sint b1 > sint max_buffer_size then max_buffer_size else b1)"
  shows "100 \<le> sint b2 \<and> sint b2 \<le> 1000"
  by (simp add: b1_def b2_def min_buffer_size_def max_buffer_size_def)

lemma recalculate_unfold:
  "bm_subscriber_count bm \<noteq> 0 \<Longrightarrow>
   bm_buffer_size (recalculate alloc bm) =
     (let available = bm_max_total_memory bm - alloc;
          available = (if sint available < 0 then 0 else available);
          b = (ucast (div64 (div64 available (scast (bm_subscriber_count bm))) avg_mess_size) :: int32);
          b1 = (if sint b < sint min_buffer_size then min_buffer_size else b)
      in if sint b1 > sint max_buffer_size then max_buffer_size else b1)"
  by (simp add: recalculate_def Let_def)

lemma recalculate_zero: "bm_subscriber_count bm = 0 \<Longrightarrow> recalculate alloc bm = bm"
  by (simp add: recalculate_def)

lemma recalculate_bounds:
  "bm_subscriber_count bm \<noteq> 0 \<Longrightarrow>
   100 \<le> get_buffer_size (recalculate alloc bm) \<and> get_buffer_size (recalculate alloc bm) \<le> 1000"
  by (simp add: get_buffer_size_def recalculate_unfold Let_def sint_clamp)

lemma recalculate_other_fields [simp]:
  "bm_subscriber_count (recalculate alloc bm) = bm_subscriber_count bm"
  "bm_max_total_memory (recalculate alloc bm) = bm_max_total_memory bm"
  "bm_stopped (recalculate alloc bm) = bm_stopped bm"
  "bm_monitor_running (recalculate alloc bm) = bm_monitor_running bm"
  by (simp_all add: recalculate_def Let_def)

lemma bm_reach_size_bounds:
  "bm_reach bm \<Longrightarrow> 100 \<le> get_buffer_size bm \<and> get_buffer_size bm \<le> 1000"
proof (induction rule: bm_reach.induct)
  case (new m)
  then show ?case by (simp add: new_adaptive_buffer_manager_def get_buffer_size_def max_buffer_size_def)
next
  case (monitor bm ev bm')
  show ?case
  proof (cases ev)
    case (BmTick alloc)
    then have "bm' = recalculate alloc bm"
      using monitor.hyps(2) by (simp add: bm_monitor_step_def split: if_splits)
    then show ?thesis
      using monitor.IH recalculate_bounds[of bm alloc]
      by (cases "bm_subscriber_count bm = 0") (simp_all add: recalculate_zero)
  next
    case BmStopSeen
    then show ?thesis
      using monitor by (auto simp: bm_monitor_step_def get_buffer_size_def split: if_splits)
  qed
qed (auto simp: get_buffer_size_def bm_start_def add_new_subscriber_def on_subscriber_removal_def
                bm_stop_def split: if_splits)

subsection \<open>Properties\<close>

text \<open>
  C8 (buffer size bounds). In every reachable state of the manager, whatever
  heap sizes the monitor observed and however the count moved, the advertised
  buffer size lies in \<open>[100, 1000]\<close>.
\<close>

theorem bm_buffer_size_bounds:
  "bm_reach bm \<Longrightarrow> 100 \<le> get_buffer_size bm \<and> get_buffer_size bm \<le> 1000"
  by (rule bm_reach_size_bounds)

lemma bm_buffer_size_bounds_witness:
  "bm_reach (new_adaptive_buffer_manager (2 ^ 31))
   \<and> 100 \<le> get_buffer_size (new_adaptive_buffer_manager (2 ^ 31))
   \<and> get_buffer_size (new_adaptive_buffer_manager (2 ^ 31)) \<le> 1000"
  using bm_reach.new bm_buffer_size_bounds[OF bm_reach.new] by blast

text \<open>
  C9 (refinement of the specification's formula). When the budget and the
  heap size are non-negative, there is at least one subscriber and the result
  fits in an \<open>int32\<close>, \<open>recalculate\<close> stores exactly the specified
  \<open>clamp(100, 1000, max(0, budget - alloc) / count / 1024)\<close>.
\<close>

theorem recalculate_refines_spec:
  assumes m: "0 \<le> sint (bm_max_total_memory bm)" and a: "0 \<le> sint alloc"
    and c: "0 < sint (bm_subscriber_count bm)"
    and fits: "max 0 (sint (bm_max_total_memory bm) - sint alloc) div sint (bm_subscriber_count bm) div 1024 < 2 ^ 31"
  shows "get_buffer_size (recalculate alloc bm)
         = spec_buffer_size (sint (bm_max_total_memory bm)) (sint alloc) (sint (bm_subscriber_count bm))"
proof -
  define M where "M = sint (bm_max_total_memory bm)"
  define A where "A = sint alloc"
  define C where "C = sint (bm_subscriber_count bm)"
  define avail :: int64 where "avail = (if sint (bm_max_total_memory bm - alloc) < 0 then 0
                                        else bm_max_total_memory bm - alloc)"
  have q: "sint (div64 (div64 avail (scast (bm_subscriber_count bm))) avg_mess_size)
           = max 0 (M - A) div C div 1024"
    using recalculate_quotient [OF m a c] by (simp add: avail_def M_def A_def C_def)
  have u: "sint (ucast (div64 (div64 avail (scast (bm_subscriber_count bm))) avg_mess_size) :: int32)
           = max 0 (M - A) div C div 1024"
    using sint_ucast_64_32[of "div64 (div64 avail (scast (bm_subscriber_count bm))) avg_mess_size"] q fits c
    by (simp add: M_def A_def C_def pos_imp_zdiv_nonneg_iff)
  have cnz: "bm_subscriber_count bm \<noteq> 0" using c by auto
  show ?thesis
    using u c unfolding get_buffer_size_def recalculate_unfold[OF cnz]
    by (simp add: Let_def avail_def[symmetric] spec_buffer_size_def M_def[symmetric]
                  A_def[symmetric] C_def[symmetric] min_buffer_size_def max_buffer_size_def)
qed

lemma recalculate_refines_spec_witness:
  "0 \<le> sint (bm_max_total_memory (add_new_subscriber (new_adaptive_buffer_manager (2 ^ 31))))
   \<and> 0 \<le> sint (2 ^ 31 - 524288 :: int64)
   \<and> 0 < sint (bm_subscriber_count (add_new_subscriber (new_adaptive_buffer_manager (2 ^ 31))))
   \<and> max 0 (sint (bm_max_total_memory (add_new_subscriber (new_adaptive_buffer_manager (2 ^ 31))))
            - sint (2 ^ 31 - 524288 :: int64))
       div sint (bm_subscriber_count (add_new_subscriber (new_adaptive_buffer_manager (2 ^ 31)))) div 1024 < 2 ^ 31
   \<and> get_buffer_size (recalculate (2 ^ 31 - 524288) (add_new_subscriber (new_adaptive_buffer_manager (2 ^ 31)))) = 512"
proof -
  have h: "0 \<le> sint (bm_max_total_memory (add_new_subscriber (new_adaptive_buffer_manager (2 ^ 31))))"
          "0 \<le> sint (2 ^ 31 - 524288 :: int64)"
          "0 < sint (bm_subscriber_count (add_new_subscriber (new_adaptive_buffer_manager (2 ^ 31))))"
          "max 0 (sint (bm_max_total_memory (add_new_subscriber (new_adaptive_buffer_manager (2 ^ 31))))
            - sint (2 ^ 31 - 524288 :: int64))
           div sint (bm_subscriber_count (add_new_subscriber (new_adaptive_buffer_manager (2 ^ 31)))) div 1024 < 2 ^ 31"
    by (simp_all add: add_new_subscriber_def new_adaptive_buffer_manager_def)
  show ?thesis
    using h recalculate_refines_spec[OF h]
    by (simp add: spec_buffer_size_def add_new_subscriber_def new_adaptive_buffer_manager_def)
qed

text \<open>
  C10 (\<open>int32\<close> truncation). Whenever the per-subscriber quotient
  \<open>max(0, budget - alloc) / count / 1024\<close> lies in \<open>[2^31, 2^32)\<close>
  (a budget of at least 2 TiB per subscriber), \<open>int32(...)\<close> wraps it
  to a negative number and the clamp stores the minimum 100, where the
  specification's formula gives the maximum 1000: the largest budgets get the
  smallest buffers.
\<close>

theorem recalculate_int32_wrap:
  assumes m: "0 \<le> sint (bm_max_total_memory bm)" and a: "0 \<le> sint alloc"
    and c: "0 < sint (bm_subscriber_count bm)"
    and lo: "2 ^ 31 \<le> max 0 (sint (bm_max_total_memory bm) - sint alloc) div sint (bm_subscriber_count bm) div 1024"
    and hi: "max 0 (sint (bm_max_total_memory bm) - sint alloc) div sint (bm_subscriber_count bm) div 1024 < 2 ^ 32"
  shows "get_buffer_size (recalculate alloc bm) = 100
         \<and> spec_buffer_size (sint (bm_max_total_memory bm)) (sint alloc) (sint (bm_subscriber_count bm)) = 1000"
proof
  define w :: int64 where "w = div64 (div64 (if sint (bm_max_total_memory bm - alloc) < 0 then 0
                                              else bm_max_total_memory bm - alloc)
                                             (scast (bm_subscriber_count bm))) avg_mess_size"
  have q: "sint w = max 0 (sint (bm_max_total_memory bm) - sint alloc) div sint (bm_subscriber_count bm) div 1024"
    unfolding w_def by (rule recalculate_quotient [OF m a c])
  have "sint (ucast w :: int32) < 0" using sint_ucast_64_32_wrap [of w] q lo hi by simp
  moreover have cnz: "bm_subscriber_count bm \<noteq> 0" using c by auto
  ultimately show "get_buffer_size (recalculate alloc bm) = 100"
    unfolding get_buffer_size_def recalculate_unfold [OF cnz] w_def [symmetric]
    by (simp add: Let_def w_def [symmetric] min_buffer_size_def max_buffer_size_def)
  show "spec_buffer_size (sint (bm_max_total_memory bm)) (sint alloc) (sint (bm_subscriber_count bm)) = 1000"
    using lo c by (simp add: spec_buffer_size_def max_absorb2)
qed

lemma recalculate_int32_wrap_witness:
  "get_buffer_size (recalculate 0 (add_new_subscriber (new_adaptive_buffer_manager (2 ^ 41)))) = 100
   \<and> spec_buffer_size (2 ^ 41) 0 1 = 1000"
proof -
  let ?b = "add_new_subscriber (new_adaptive_buffer_manager (2 ^ 41))"
  have h: "0 \<le> sint (bm_max_total_memory ?b)" "0 \<le> sint (0 :: int64)" "0 < sint (bm_subscriber_count ?b)"
    "2 ^ 31 \<le> max 0 (sint (bm_max_total_memory ?b) - sint (0 :: int64)) div sint (bm_subscriber_count ?b) div 1024"
    "max 0 (sint (bm_max_total_memory ?b) - sint (0 :: int64)) div sint (bm_subscriber_count ?b) div 1024 < 2 ^ 32"
    by (simp_all add: add_new_subscriber_def new_adaptive_buffer_manager_def)
  have e: "sint (bm_max_total_memory ?b) = 2 ^ 41" "sint (0 :: int64) = 0" "sint (bm_subscriber_count ?b) = 1"
    by (simp_all add: add_new_subscriber_def new_adaptive_buffer_manager_def)
  show ?thesis using recalculate_int32_wrap [OF h] unfolding e by simp
qed

text \<open>
  No recalculation without subscribers: \<open>recalculate\<close> returns early
  when the count is 0, so a size shrunk under load stays at its minimum after
  the last subscriber leaves and the heap empties, where the specification
  (dividing by \<open>max(1, count)\<close>) gives 1000 again.
\<close>

theorem bm_size_stuck_without_subscribers:
  "bm_reach (recalculate 0 (on_subscriber_removal (recalculate (2 ^ 31 - 51200)
      (add_new_subscriber (bm_start (new_adaptive_buffer_manager (2 ^ 31)))))))
   \<and> get_buffer_size (recalculate 0 (on_subscriber_removal (recalculate (2 ^ 31 - 51200)
      (add_new_subscriber (bm_start (new_adaptive_buffer_manager (2 ^ 31))))))) = 100
   \<and> spec_buffer_size (2 ^ 31) 0 0 = 1000"
proof -
  let ?b1 = "add_new_subscriber (bm_start (new_adaptive_buffer_manager (2 ^ 31)))"
  let ?b2 = "recalculate (2 ^ 31 - 51200) ?b1"
  let ?b3 = "on_subscriber_removal ?b2"
  have r1: "bm_reach ?b1" by (intro bm_reach.add bm_reach.start bm_reach.new)
  have r2: "bm_reach ?b2"
    by (rule bm_reach.monitor[OF r1, of "BmTick (2 ^ 31 - 51200)"])
       (simp add: bm_monitor_step_def add_new_subscriber_def bm_start_def)
  have r3: "bm_reach ?b3" using r2 by (rule bm_reach.remove)
  have r4: "bm_reach (recalculate 0 ?b3)"
    by (rule bm_reach.monitor[OF r3, of "BmTick 0"])
       (simp add: bm_monitor_step_def on_subscriber_removal_def add_new_subscriber_def bm_start_def)
  moreover have "get_buffer_size (recalculate 0 ?b3) = 100"
    by (simp add: recalculate_def get_buffer_size_def new_adaptive_buffer_manager_def
                  add_new_subscriber_def on_subscriber_removal_def bm_start_def div64_def
                  avg_mess_size_def min_buffer_size_def max_buffer_size_def Let_def)
  moreover have "spec_buffer_size (2 ^ 31) 0 0 = 1000" by (simp add: spec_buffer_size_def)
  ultimately show ?thesis by simp
qed

end
