(* ===== verification/Throttler.thy ===== *)
theory Throttler
  imports Prelude
begin

text \<open>
  The publisher-side throttle, \<open>src/unnamed/part_003\<close> (package
  \<open>throttle\<close>, \<open>AdaptiveThrottler\<close>). Its state is a set of atomics: the
  throttling flag, the last check time (Unix seconds), the slow and total
  subscriber counts (\<open>int32\<close>) and the last sampled CPU and memory signals
  (\<open>uint64\<close>, the fraction times \<open>10^6\<close>). \<open>StartThrottling\<close> spawns a
  goroutine that sleeps \<open>ThrottleDuration\<close> and clears the flag; the model
  keeps the wake-up times of these goroutines in \<open>th_timers\<close>. Time is
  nanoseconds; \<open>time.Now().Unix()\<close> is \<open>now div 10^9\<close> and
  \<open>now.Sub(time.Unix(last, 0))\<close> is \<open>now - last * 10^9\<close>.
  The runtime's goroutine count and heap size are inputs of the sampling.
  Floats are reals: the comparisons of the code are between small integer
  quotients and the literals 0.5 and 0.8, where float rounding never changes
  the outcome. The stored signals \<open>uint64(usage * 1e6)\<close> are the floor of
  the exact product here; Go truncates the rounded float product, which may
  be one less (\<open>0.9 * 1e6\<close> is not exact in binary), so the reported
  metric may differ from the model's by 1, within the bound proved below.
  \<open>ApplyThrottle\<close> (lines 102--106) reloads the flag; a caller that
  calls it right after \<open>ShouldThrottle\<close> with no disarm in between reads
  the flag that call left.
\<close>

record throttle_config =
  cpu_threshold :: real
  memory_threshold :: real
  slow_sub_threshold :: real
  throttle_duration :: int
  check_interval :: int
  min_publish_interval :: int

definition default_config :: throttle_config where
  "default_config =
     \<lparr>cpu_threshold = 8 / 10, memory_threshold = 8 / 10, slow_sub_threshold = 5 / 10,
      throttle_duration = 5 * 1000000000, check_interval = 1000000000,
      min_publish_interval = 10 * 1000000\<rparr>"

record throttler =
  th_config :: throttle_config
  th_is_throttling :: bool
  th_last_check_time :: int
  th_slow_sub_count :: "32 word"
  th_total_sub_count :: "32 word"
  th_last_cpu_usage :: nat
  th_last_memory_usage :: nat
  th_timers :: "int list"

definition new_adaptive_throttler :: "throttle_config \<Rightarrow> int \<Rightarrow> throttler" where
  "new_adaptive_throttler cfg now =
     \<lparr>th_config = cfg, th_is_throttling = False, th_last_check_time = now div 1000000000,
      th_slow_sub_count = 0, th_total_sub_count = 0, th_last_cpu_usage = 0,
      th_last_memory_usage = 0, th_timers = []\<rparr>"

text \<open>\<open>getCPUUsage\<close>: the goroutine count in buckets, as a fraction.\<close>

definition cpu_usage_of :: "nat \<Rightarrow> real" where
  "cpu_usage_of num_goroutines =
     (if num_goroutines > 10000 then 9 / 10
      else if num_goroutines > 5000 then 7 / 10
      else if num_goroutines > 1000 then 5 / 10
      else real num_goroutines / 1000)"

definition get_cpu_usage :: "nat \<Rightarrow> throttler \<Rightarrow> throttler \<times> real" where
  "get_cpu_usage num_goroutines th =
     (let usage = cpu_usage_of num_goroutines
      in (th\<lparr>th_last_cpu_usage := nat \<lfloor>usage * 1000000\<rfloor>\<rparr>, usage))"

text \<open>\<open>getMemoryUsage\<close>: the heap over a fixed 2 GiB, capped at 1.\<close>

definition memory_usage_of :: "nat \<Rightarrow> real" where
  "memory_usage_of alloc =
     (let usage = real alloc / real ((2::nat) * 1024 * 1024 * 1024)
      in if usage > 1 then 1 else usage)"

definition get_memory_usage :: "nat \<Rightarrow> throttler \<Rightarrow> throttler \<times> real" where
  "get_memory_usage alloc th =
     (let usage = memory_usage_of alloc
      in (th\<lparr>th_last_memory_usage := nat \<lfloor>usage * 1000000\<rfloor>\<rparr>, usage))"

definition start_throttling :: "int \<Rightarrow> throttler \<Rightarrow> throttler" where
  "start_throttling now th =
     th\<lparr>th_is_throttling := True,
        th_timers := th_timers th @ [now + throttle_duration (th_config th)]\<rparr>"

definition stop_throttling :: "throttler \<Rightarrow> throttler" where
  "stop_throttling th = th\<lparr>th_is_throttling := False\<rparr>"

text \<open>
  \<open>ShouldThrottle\<close> at time \<open>now\<close>, with the runtime's goroutine count and
  heap size at that moment. Both signals are sampled (and stored) before the
  test for an empty subscriber total.
\<close>

definition should_throttle :: "int \<Rightarrow> nat \<Rightarrow> nat \<Rightarrow> throttler \<Rightarrow> throttler \<times> bool" where
  "should_throttle now num_goroutines alloc th =
     (if th_is_throttling th then (th, True)
      else if now - th_last_check_time th * 1000000000 < check_interval (th_config th)
      then (th, th_is_throttling th)
      else
        let th = th\<lparr>th_last_check_time := now div 1000000000\<rparr>;
            (th, cpu) = get_cpu_usage num_goroutines th;
            (th, mem) = get_memory_usage alloc th;
            slow = real_of_int (sint (th_slow_sub_count th));
            total = real_of_int (sint (th_total_sub_count th))
        in if total = 0 then (th, False)
           else
             let pct = slow / total;
                 decision = (pct > slow_sub_threshold (th_config th)
                             \<and> (cpu > cpu_threshold (th_config th)
                                \<or> mem > memory_threshold (th_config th)))
             in if decision then (start_throttling now th, True) else (th, False))"

text \<open>\<open>ApplyThrottle\<close>: the delay, in nanoseconds, the caller sleeps.\<close>

definition apply_throttle :: "throttler \<Rightarrow> int" where
  "apply_throttle th = (if th_is_throttling th then min_publish_interval (th_config th) else 0)"

definition update_subscriber :: "int \<Rightarrow> int \<Rightarrow> throttler \<Rightarrow> throttler" where
  "update_subscriber slow_count total_count th =
     th\<lparr>th_slow_sub_count := word_of_int slow_count, th_total_sub_count := word_of_int total_count\<rparr>"

definition th_get_metrics :: "throttler \<Rightarrow> bool \<times> int \<times> int \<times> nat \<times> nat" where
  "th_get_metrics th =
     (th_is_throttling th, sint (th_slow_sub_count th), sint (th_total_sub_count th),
      th_last_cpu_usage th, th_last_memory_usage th)"

definition is_throttling :: "throttler \<Rightarrow> bool" where
  "is_throttling th = th_is_throttling th"

text \<open>
  The disarm goroutine whose wake-up time is the \<open>i\<close>-th pending timer runs
  at time \<open>now\<close> (not before its wake-up time) and clears the flag.
\<close>

definition fire_timer :: "int \<Rightarrow> nat \<Rightarrow> throttler \<Rightarrow> throttler option" where
  "fire_timer now i th =
     (if i < length (th_timers th) \<and> th_timers th ! i \<le> now
      then Some (stop_throttling (th\<lparr>th_timers := take i (th_timers th) @ drop (Suc i) (th_timers th)\<rparr>))
      else None)"

text \<open>
  One step of the throttler on a clock that never goes back: a completed
  \<open>ShouldThrottle\<close> or \<open>UpdateSubscriber\<close> call, or a disarm goroutine
  waking up. Runs start from a new throttler. Each call is one step here,
  which is how the code behaves when calls do not overlap; the theory
  \<open>ThrottlerConcurrent\<close> splits \<open>ShouldThrottle\<close> into its atomic
  operations and interleaves concurrent calls.
\<close>

inductive th_step :: "throttler \<Rightarrow> int \<Rightarrow> throttler \<Rightarrow> int \<Rightarrow> bool" where
  should: "t \<le> t' \<Longrightarrow> th_step th t (fst (should_throttle t' g a th)) t'"
| update: "t \<le> t' \<Longrightarrow> th_step th t (update_subscriber sl tot th) t'"
| fire: "t \<le> t' \<Longrightarrow> fire_timer t' i th = Some th' \<Longrightarrow> th_step th t th' t'"

inductive th_run :: "throttler \<Rightarrow> int \<Rightarrow> bool" where
  init: "th_run (new_adaptive_throttler cfg t) t"
| step: "th_run th t \<Longrightarrow> th_step th t th' t' \<Longrightarrow> th_run th' t'"

definition th_signals_ok :: "throttler \<Rightarrow> bool" where
  "th_signals_ok th \<longleftrightarrow> th_last_cpu_usage th \<le> 1000000 \<and> th_last_memory_usage th \<le> 1000000"

text \<open>The run of the scenarios: a new throttler told of 6 slow subscribers out of 10.\<close>

abbreviation s6_throttler :: throttler where
  "s6_throttler \<equiv> update_subscriber 6 10 (new_adaptive_throttler default_config 0)"

text \<open>
  The quotient of the slow share is taken on reals: the simplifier's rewrite
  of \<open>of_int (sint w)\<close> to \<open>signed w\<close> is switched off so that the
  tests of the code stay on \<open>sint\<close>.
\<close>

declare of_int_sint [simp del]

subsection \<open>Lemmas\<close>

lemma should_throttle_cases:
  "should_throttle now g a th =
     (if th_is_throttling th then (th, True)
      else if now - th_last_check_time th * 1000000000 < check_interval (th_config th) then (th, False)
      else
        let th1 = th\<lparr>th_last_check_time := now div 1000000000,
                     th_last_cpu_usage := nat \<lfloor>cpu_usage_of g * 1000000\<rfloor>,
                     th_last_memory_usage := nat \<lfloor>memory_usage_of a * 1000000\<rfloor>\<rparr>
        in if sint (th_total_sub_count th) = 0 then (th1, False)
           else if real_of_int (sint (th_slow_sub_count th)) / real_of_int (sint (th_total_sub_count th))
                     > slow_sub_threshold (th_config th)
                   \<and> (cpu_usage_of g > cpu_threshold (th_config th)
                      \<or> memory_usage_of a > memory_threshold (th_config th))
           then (start_throttling now th1, True) else (th1, False))"
  by (simp add: should_throttle_def get_cpu_usage_def get_memory_usage_def Let_def)

lemma should_throttle_config:
  "th_config (fst (should_throttle now g a th)) = th_config th"
  by (simp add: should_throttle_def get_cpu_usage_def get_memory_usage_def start_throttling_def Let_def
           split: prod.splits)

lemma should_throttle_armed:
  "snd (should_throttle now g a th) \<Longrightarrow> th_is_throttling (fst (should_throttle now g a th))"
  by (auto simp: should_throttle_def get_cpu_usage_def get_memory_usage_def start_throttling_def Let_def
           split: prod.splits if_splits)

lemma s6_run: "th_run s6_throttler 0"
  by (rule th_run.step[OF th_run.init th_step.update]) simp

lemma usage_signals_bounded:
  "0 \<le> cpu_usage_of n \<and> cpu_usage_of n \<le> 1 \<and> 0 \<le> memory_usage_of a \<and> memory_usage_of a \<le> 1"
  by (auto simp: cpu_usage_of_def memory_usage_of_def Let_def)

lemma scaled_usage_le: "(u::real) \<le> 1 \<Longrightarrow> nat \<lfloor>u * 1000000\<rfloor> \<le> (1000000::nat)"
proof -
  assume "u \<le> 1"
  then have "\<lfloor>u * 1000000\<rfloor> \<le> \<lfloor>(1000000::real)\<rfloor>" by (intro floor_mono) linarith
  then have "\<lfloor>u * 1000000\<rfloor> \<le> 1000000" by (simp only: floor_numeral)
  then show ?thesis by (simp add: nat_le_iff)
qed

lemma th_signals_step: "th_step th t th' t' \<Longrightarrow> th_signals_ok th \<Longrightarrow> th_signals_ok th'"
  by (induction rule: th_step.induct)
     (auto simp: th_signals_ok_def should_throttle_cases start_throttling_def update_subscriber_def
                 fire_timer_def stop_throttling_def Let_def usage_signals_bounded scaled_usage_le
           split: if_splits)

text \<open>
  C11. When the throttle is off and the check interval has passed,
  \<open>ShouldThrottle\<close> returns (and stores in the flag) exactly the decision of the
  code: a non-empty subscriber total, a slow share above the threshold, and the
  CPU or memory signal above its threshold; it records the check time in
  Unix seconds.
\<close>

theorem should_throttle_decision:
  fixes g a :: nat
  assumes "\<not> th_is_throttling th"
    and "check_interval (th_config th) \<le> now - th_last_check_time th * 1000000000"
  defines "D \<equiv> sint (th_total_sub_count th) \<noteq> 0
              \<and> real_of_int (sint (th_slow_sub_count th)) / real_of_int (sint (th_total_sub_count th))
                  > slow_sub_threshold (th_config th)
              \<and> (cpu_usage_of g > cpu_threshold (th_config th)
                 \<or> memory_usage_of a > memory_threshold (th_config th))"
  shows "snd (should_throttle now g a th) = D
         \<and> th_is_throttling (fst (should_throttle now g a th)) = D
         \<and> th_last_check_time (fst (should_throttle now g a th)) = now div 1000000000"
  using assms by (auto simp: should_throttle_cases start_throttling_def Let_def)

theorem should_throttle_decision_witness:
  "\<not> th_is_throttling s6_throttler
   \<and> check_interval (th_config s6_throttler) \<le> 2000000000 - th_last_check_time s6_throttler * 1000000000
   \<and> snd (should_throttle 2000000000 20000 0 s6_throttler)"
proof -
  have pre: "\<not> th_is_throttling s6_throttler"
    "check_interval (th_config s6_throttler) \<le> 2000000000 - th_last_check_time s6_throttler * 1000000000"
    by (simp_all add: update_subscriber_def new_adaptive_throttler_def default_config_def)
  have "snd (should_throttle 2000000000 (20000::nat) (0::nat) s6_throttler)"
    using should_throttle_decision [OF pre]
    by (simp add: update_subscriber_def new_adaptive_throttler_def default_config_def cpu_usage_of_def)
  with pre show ?thesis by simp
qed

text \<open>
  C12. The CPU and memory signals that \<open>GetMetrics\<close> reports never exceed
  \<open>10^6\<close> (a fraction of 1 scaled by \<open>10^6\<close>) in any run.
\<close>

theorem th_metrics_signals_bounded:
  "th_run th t \<Longrightarrow> th_get_metrics th = (b, sl, tot, cpu, mem) \<Longrightarrow> cpu \<le> 1000000 \<and> mem \<le> 1000000"
proof (induction arbitrary: b sl tot cpu mem rule: th_run.induct)
  case (init cfg t)
  then show ?case by (simp add: th_get_metrics_def new_adaptive_throttler_def)
next
  case (step th t th' t')
  then have "th_signals_ok th" by (auto simp: th_signals_ok_def th_get_metrics_def)
  then have "th_signals_ok th'" using step.hyps(2) by (rule th_signals_step [rotated])
  then show ?case using step.prems by (auto simp: th_signals_ok_def th_get_metrics_def)
qed

theorem th_metrics_signals_bounded_witness:
  "th_get_metrics s6_throttler = (False, 6, 10, 0, 0) \<and> (0::nat) \<le> 1000000 \<and> (0::nat) \<le> 1000000"
proof -
  have m: "th_get_metrics s6_throttler = (False, 6, 10, 0, 0)"
    by (simp add: th_get_metrics_def update_subscriber_def new_adaptive_throttler_def)
  from th_metrics_signals_bounded [OF s6_run m] m show ?thesis by simp
qed

text \<open>
  The CPU signal is not monotone in the goroutine count: with the
  same 6-of-10 slow share, 900 goroutines (signal 0.9) arm the throttle but 2000
  goroutines (signal 0.5) do not.
\<close>

theorem cpu_proxy_not_monotone:
  "snd (should_throttle 2000000000 900 0 s6_throttler)
   \<and> \<not> snd (should_throttle 2000000000 2000 0 s6_throttler)"
  by (simp add: should_throttle_cases update_subscriber_def new_adaptive_throttler_def
                default_config_def cpu_usage_of_def memory_usage_of_def start_throttling_def Let_def)

end
