(* ===== verification/ThrottlerConcurrent.thy ===== *)
theory ThrottlerConcurrent
  imports Throttler
begin

text \<open>
  \<open>ShouldThrottle\<close> (\<open>src/unnamed/part_003\<close>, lines 54--87) takes no lock:
  it is a sequence of separate operations on the throttler's atomics, and
  publish handlers call it concurrently. Here each call is a thread with a
  program counter, and one step performs exactly one atomic operation of the
  code: the load of \<open>isThrottling\<close> (line 55), the load of
  \<open>lastCheckTime\<close> with the interval test (60--62), the reload of the flag
  (63), the store of the check time (66), the two sampling calls, each of
  which stores one atomic (68, 69), the loads of the two counts (71, 72), and
  \<open>StartThrottling\<close> (90--95: the store of the flag and the start of the
  disarm goroutine). \<open>UpdateSubscriber\<close> is two separate stores (109,
  110). The clock is read (line 59) in the step after the first load, as
  the code does. Calls, stores and disarm goroutines interleave freely; the
  clock never goes back.
\<close>

datatype st_pc = PcFlag | PcCheck | PcRecheck | PcStore | PcCpu | PcMem | PcSlow | PcTotal | PcArm
  | PcRet bool

record st_call =
  cs_now :: int
  cs_goroutines :: nat
  cs_alloc :: nat
  cs_pc :: st_pc
  cs_cpu :: real
  cs_mem :: real
  cs_slow :: real

definition new_call :: "int \<Rightarrow> nat \<Rightarrow> nat \<Rightarrow> st_call" where
  "new_call now g a = \<lparr>cs_now = now, cs_goroutines = g, cs_alloc = a, cs_pc = PcFlag,
                       cs_cpu = 0, cs_mem = 0, cs_slow = 0\<rparr>"

text \<open>
  One atomic operation of a call at clock \<open>clk\<close>; \<open>None\<close> once it has
  returned. A new call's clock field is overwritten by its first step.
\<close>

fun call_step :: "int \<Rightarrow> st_call \<Rightarrow> throttler \<Rightarrow> (st_call \<times> throttler) option" where
  "call_step clk c th = (case cs_pc c of
      PcFlag \<Rightarrow> Some (if th_is_throttling th then c\<lparr>cs_pc := PcRet True\<rparr>
                      else c\<lparr>cs_pc := PcCheck, cs_now := clk\<rparr>, th)
    | PcCheck \<Rightarrow>
        Some (c\<lparr>cs_pc := if cs_now c - th_last_check_time th * 1000000000 < check_interval (th_config th)
                         then PcRecheck else PcStore\<rparr>, th)
    | PcRecheck \<Rightarrow> Some (c\<lparr>cs_pc := PcRet (th_is_throttling th)\<rparr>, th)
    | PcStore \<Rightarrow> Some (c\<lparr>cs_pc := PcCpu\<rparr>, th\<lparr>th_last_check_time := cs_now c div 1000000000\<rparr>)
    | PcCpu \<Rightarrow> (let (th', u) = get_cpu_usage (cs_goroutines c) th in Some (c\<lparr>cs_pc := PcMem, cs_cpu := u\<rparr>, th'))
    | PcMem \<Rightarrow> (let (th', u) = get_memory_usage (cs_alloc c) th in Some (c\<lparr>cs_pc := PcSlow, cs_mem := u\<rparr>, th'))
    | PcSlow \<Rightarrow> Some (c\<lparr>cs_pc := PcTotal, cs_slow := real_of_int (sint (th_slow_sub_count th))\<rparr>, th)
    | PcTotal \<Rightarrow>
        (let total = real_of_int (sint (th_total_sub_count th)) in
         if total = 0 then Some (c\<lparr>cs_pc := PcRet False\<rparr>, th)
         else if cs_slow c / total > slow_sub_threshold (th_config th)
                 \<and> (cs_cpu c > cpu_threshold (th_config th) \<or> cs_mem c > memory_threshold (th_config th))
         then Some (c\<lparr>cs_pc := PcArm\<rparr>, th)
         else Some (c\<lparr>cs_pc := PcRet False\<rparr>, th))
    | PcArm \<Rightarrow> Some (c\<lparr>cs_pc := PcRet True\<rparr>, start_throttling (cs_now c) th)
    | PcRet b \<Rightarrow> None)"

text \<open>The throttler shared by the running calls, on a clock.\<close>

record th_conc =
  tc_th :: throttler
  tc_calls :: "st_call list"
  tc_clock :: int

datatype th_event =
    EvCall nat nat
  | EvStep nat
  | EvReturn nat
  | EvFire nat
  | EvTick int
  | EvStoreSlow int
  | EvStoreTotal int

text \<open>
  One event: a publish handler enters \<open>ShouldThrottle\<close> (with the goroutine
  count and heap it will sample), a running call takes its next step, a call
  that has returned leaves, the \<open>i\<close>-th disarm goroutine wakes up, time passes,
  or the monitor performs one of the two stores of \<open>UpdateSubscriber\<close>.
  \<open>None\<close> when the event is not enabled.
\<close>

fun th_event_step :: "th_event \<Rightarrow> th_conc \<Rightarrow> th_conc option" where
  "th_event_step (EvCall g a) c = Some (c\<lparr>tc_calls := tc_calls c @ [new_call (tc_clock c) g a]\<rparr>)"
| "th_event_step (EvStep i) c =
     (if i < length (tc_calls c)
      then map_option (\<lambda>(k, th'). c\<lparr>tc_th := th', tc_calls := (tc_calls c)[i := k]\<rparr>)
             (call_step (tc_clock c) (tc_calls c ! i) (tc_th c))
      else None)"
| "th_event_step (EvReturn i) c =
     (if i < length (tc_calls c) \<and> (case cs_pc (tc_calls c ! i) of PcRet b \<Rightarrow> True | _ \<Rightarrow> False)
      then Some (c\<lparr>tc_calls := take i (tc_calls c) @ drop (Suc i) (tc_calls c)\<rparr>) else None)"
| "th_event_step (EvFire i) c = map_option (\<lambda>th'. c\<lparr>tc_th := th'\<rparr>) (fire_timer (tc_clock c) i (tc_th c))"
| "th_event_step (EvTick t) c = (if tc_clock c \<le> t then Some (c\<lparr>tc_clock := t\<rparr>) else None)"
| "th_event_step (EvStoreSlow v) c = Some (c\<lparr>tc_th := (tc_th c)\<lparr>th_slow_sub_count := word_of_int v\<rparr>\<rparr>)"
| "th_event_step (EvStoreTotal v) c = Some (c\<lparr>tc_th := (tc_th c)\<lparr>th_total_sub_count := word_of_int v\<rparr>\<rparr>)"

fun th_exec :: "th_conc \<Rightarrow> th_event list \<Rightarrow> th_conc option" where
  "th_exec c [] = Some c"
| "th_exec c (e # es) = Option.bind (th_event_step e c) (\<lambda>c'. th_exec c' es)"

inductive tc_reach :: "th_conc \<Rightarrow> bool" where
  init: "tc_reach \<lparr>tc_th = new_adaptive_throttler cfg t, tc_calls = [], tc_clock = t\<rparr>"
| step: "tc_reach c \<Longrightarrow> th_event_step e c = Some c' \<Longrightarrow> tc_reach c'"

text \<open>
  What the code keeps true: the flag is set only together with a new disarm
  goroutine, whose wake-up is the arming call's clock reading plus
  \<open>ThrottleDuration\<close>; every call's clock reading is in the past.
\<close>

definition tc_inv :: "th_conc \<Rightarrow> bool" where
  "tc_inv c \<longleftrightarrow> (th_is_throttling (tc_th c) \<longrightarrow> th_timers (tc_th c) \<noteq> [])
     \<and> (\<forall>d \<in> set (th_timers (tc_th c)). d \<le> tc_clock c + throttle_duration (th_config (tc_th c)))
     \<and> (\<forall>k \<in> set (tc_calls c). cs_now k \<le> tc_clock c)"

text \<open>The scenario: 6 slow subscribers of 10 stored by the monitor, then calls at 2 s and 2.5 s.\<close>

abbreviation tc0 :: th_conc where
  "tc0 \<equiv> \<lparr>tc_th = new_adaptive_throttler default_config 0, tc_calls = [], tc_clock = 0\<rparr>"

definition race_events :: "th_event list" where
  "race_events =
     [EvStoreSlow 6, EvStoreTotal 10,
      EvTick 2000000000, EvCall 20000 0, EvStep 0, EvStep 0,
      EvTick 2500000000, EvCall 20000 0, EvStep 1, EvStep 1,
      EvStep 0, EvStep 0, EvStep 0, EvStep 0, EvStep 0, EvStep 0, EvReturn 0,
      EvStep 0, EvStep 0, EvStep 0, EvStep 0, EvStep 0, EvStep 0, EvReturn 0]"

definition rearm_events :: "th_event list" where
  "rearm_events =
     [EvTick 7000000000, EvFire 0,
      EvTick 7200000000, EvCall 20000 0,
      EvStep 0, EvStep 0, EvStep 0, EvStep 0, EvStep 0, EvStep 0, EvStep 0, EvStep 0, EvReturn 0]"

subsection \<open>Lemmas\<close>

lemma call_step_inv:
  assumes "call_step clk k th = Some (k', th')" "cs_now k \<le> clk"
    "th_is_throttling th \<longrightarrow> th_timers th \<noteq> []"
    "\<forall>d\<in>set (th_timers th). d \<le> clk + throttle_duration (th_config th)"
  shows "th_config th' = th_config th \<and> (th_is_throttling th' \<longrightarrow> th_timers th' \<noteq> [])
         \<and> (\<forall>d\<in>set (th_timers th'). d \<le> clk + throttle_duration (th_config th)) \<and> cs_now k' \<le> clk"
  using assms
  by (cases "cs_pc k")
     (auto simp add: get_cpu_usage_def get_memory_usage_def start_throttling_def Let_def split: if_splits)

lemma ball_take_drop:
  "\<forall>x\<in>set xs. P x \<Longrightarrow> \<forall>x\<in>set (take i xs @ drop (Suc i) xs). P x"
  by (auto dest: in_set_takeD in_set_dropD)

lemma tc_inv_step:
  assumes inv: "tc_inv c" and st: "th_event_step e c = Some c'"
  shows "tc_inv c'"
proof (cases e)
  case (EvStep i)
  then obtain k' th' where i: "i < length (tc_calls c)"
      and cs: "call_step (tc_clock c) (tc_calls c ! i) (tc_th c) = Some (k', th')"
      and c': "c' = c\<lparr>tc_th := th', tc_calls := (tc_calls c)[i := k']\<rparr>"
    using st by (auto split: if_splits)
  have "cs_now (tc_calls c ! i) \<le> tc_clock c" using inv i by (simp add: tc_inv_def)
  then have p: "th_config th' = th_config (tc_th c) \<and> (th_is_throttling th' \<longrightarrow> th_timers th' \<noteq> [])
         \<and> (\<forall>d\<in>set (th_timers th'). d \<le> tc_clock c + throttle_duration (th_config (tc_th c))) \<and> cs_now k' \<le> tc_clock c"
    using call_step_inv [OF cs] inv by (simp add: tc_inv_def)
  have "set ((tc_calls c)[i := k']) \<subseteq> insert k' (set (tc_calls c))" by (rule set_update_subset_insert)
  then show ?thesis using p inv c' by (auto simp add: tc_inv_def)
next
  case (EvReturn i)
  then show ?thesis using st inv ball_take_drop [of "tc_calls c" "\<lambda>k. cs_now k \<le> tc_clock c" i]
    by (auto simp add: tc_inv_def split: if_splits)
next
  case (EvFire i)
  then show ?thesis using st inv
      ball_take_drop [of "th_timers (tc_th c)" "\<lambda>d. d \<le> tc_clock c + throttle_duration (th_config (tc_th c))" i]
    by (auto simp add: tc_inv_def fire_timer_def stop_throttling_def split: if_splits)
next
  case (EvTick t)
  then show ?thesis using st inv by (fastforce simp add: tc_inv_def split: if_splits)
qed (use st inv in \<open>auto simp add: tc_inv_def new_call_def\<close>)

lemma tc_reach_inv: "tc_reach c \<Longrightarrow> tc_inv c"
proof (induction rule: tc_reach.induct)
  case (init cfg t)
  then show ?case by (simp add: tc_inv_def new_adaptive_throttler_def)
next
  case (step c e c')
  show ?case by (rule tc_inv_step [OF step.IH step.hyps(2)])
qed

lemma th_exec_reach: "th_exec c es = Some c' \<Longrightarrow> tc_reach c \<Longrightarrow> tc_reach c'"
proof (induction es arbitrary: c)
  case Nil
  then show ?case by simp
next
  case (Cons e es)
  then obtain c1 where s: "th_event_step e c = Some c1" and r: "th_exec c1 es = Some c'"
    by (cases "th_event_step e c") auto
  have "tc_reach c1" by (rule tc_reach.step [OF Cons.prems(2) s])
  then show ?case by (rule Cons.IH [OF r])
qed

lemma fire_first:
  "th_timers th = d # ds \<Longrightarrow> d \<le> now \<Longrightarrow> fire_timer now 0 th = Some (stop_throttling (th\<lparr>th_timers := ds\<rparr>))"
  by (simp add: fire_timer_def)

lemmas tc_eval = race_events_def rearm_events_def new_call_def new_adaptive_throttler_def default_config_def
  get_cpu_usage_def get_memory_usage_def cpu_usage_of_def memory_usage_of_def start_throttling_def
  fire_timer_def stop_throttling_def

lemma race_run:
  "map_option (\<lambda>c. (tc_clock c, th_is_throttling (tc_th c), th_timers (tc_th c), th_config (tc_th c)))
     (th_exec tc0 (race_events @ rearm_events))
   = Some (7200000000, True, [7500000000, 12200000000], default_config)"
  by (simp add: tc_eval)

subsection \<open>Properties\<close>

text \<open>
  C13. In every interleaving of concurrent \<open>ShouldThrottle\<close> calls, monitor
  stores and disarm goroutines, whenever the throttler is throttling a disarm
  goroutine is pending, and every pending disarm goroutine wakes up within
  \<open>ThrottleDuration\<close> of the present: throttling never outlives the
  duration by more than the scheduler's delay.
\<close>

theorem tc_throttling_bounded:
  "tc_reach c \<Longrightarrow> (th_is_throttling (tc_th c) \<longrightarrow> th_timers (tc_th c) \<noteq> [])
     \<and> (\<forall>d \<in> set (th_timers (tc_th c)). d \<le> tc_clock c + throttle_duration (th_config (tc_th c)))"
  using tc_reach_inv by (simp add: tc_inv_def)

theorem tc_throttling_bounded_witness:
  "\<exists>c. tc_reach c \<and> th_is_throttling (tc_th c) \<and> th_timers (tc_th c) \<noteq> []
     \<and> (\<forall>d \<in> set (th_timers (tc_th c)). d \<le> tc_clock c + throttle_duration (th_config (tc_th c)))"
proof -
  obtain c where e: "th_exec tc0 (race_events @ rearm_events) = Some c"
    and f: "th_is_throttling (tc_th c)"
    using race_run by (cases "th_exec tc0 (race_events @ rearm_events)") auto
  have r: "tc_reach c" by (rule th_exec_reach [OF e tc_reach.init])
  show ?thesis using tc_throttling_bounded [OF r] r f by blast
qed

text \<open>
  C14. Concurrent calls may both arm the throttler: two publishes at 2 s and
  2.5 s that both pass the interval test before either stores its check
  time start two disarm goroutines (7 s and 7.5 s). After the first has
  cleared the flag, a call at 7.2 s arms it again, with its own disarm at
  12.2 s; the stale goroutine of the second call clears it at 7.5 s, 0.3 s
  after it was set rather than \<open>ThrottleDuration\<close> (5 s).
\<close>

theorem stale_disarm_cuts_throttling:
  "\<exists>c c'. tc_reach c \<and> tc_clock c = 7200000000 \<and> th_is_throttling (tc_th c)
      \<and> th_timers (tc_th c) = [7500000000, 12200000000]
      \<and> th_exec c [EvTick 7500000000, EvFire 0] = Some c'
      \<and> \<not> th_is_throttling (tc_th c') \<and> th_timers (tc_th c') = [12200000000]
      \<and> tc_clock c' < tc_clock c + throttle_duration (th_config (tc_th c))"
proof -
  obtain c where e: "th_exec tc0 (race_events @ rearm_events) = Some c"
    and f: "tc_clock c = 7200000000" "th_is_throttling (tc_th c)"
       "th_timers (tc_th c) = [7500000000, 12200000000]" "th_config (tc_th c) = default_config"
    using race_run by (cases "th_exec tc0 (race_events @ rearm_events)") auto
  have r: "tc_reach c" by (rule th_exec_reach [OF e tc_reach.init])
  let ?c' = "c\<lparr>tc_clock := 7500000000, tc_th := stop_throttling ((tc_th c)\<lparr>th_timers := [12200000000]\<rparr>)\<rparr>"
  have x: "th_exec c [EvTick 7500000000, EvFire 0] = Some ?c'"
    using f(1) fire_first [OF f(3)] by simp
  show ?thesis
    by (rule exI [of _ c], rule exI [of _ ?c']) (simp add: r f x stop_throttling_def default_config_def del: th_exec.simps)
qed


end
