(* ===== verification/Config.thy ===== *)
theory Config
  imports BufferManager
begin

text \<open>
  \<open>src/internal/config/config.go\<close>, package \<open>config\<close>: \<open>LoadConfig\<close>
  reads the listen address and the memory budget from the environment.
  The environment is a map from names to values (\<open>os.Getenv\<close> gives the
  empty string for an unset name). \<open>getEnvInt\<close> parses with
  \<open>fmt.Sscanf(value, "%d", &intValue)\<close> and ignores the error, so a value
  that does not parse leaves \<open>intValue\<close> at 0 rather than the default.
\<close>

record config =
  cfg_address :: string
  cfg_max_memory :: int64

type_synonym environment = "string \<Rightarrow> string option"

definition os_getenv :: "environment \<Rightarrow> string \<Rightarrow> string" where
  "os_getenv env key = (case env key of Some v \<Rightarrow> v | None \<Rightarrow> [])"

definition get_env :: "environment \<Rightarrow> string \<Rightarrow> string \<Rightarrow> string" where
  "get_env env key default_value =
     (let value = os_getenv env key in if value \<noteq> [] then value else default_value)"

text \<open>
  \<open>Sscanf\<close> with the single verb \<open>%d\<close> into an \<open>int\<close> (64 bits): skip
  white space (\<open>SkipSpace\<close>; a newline is an error for \<open>Sscanf\<close>), accept
  one sign, then at least one decimal digit and as many more as follow; the
  token is converted by \<open>strconv.ParseInt(tok, 10, 64)\<close>, which fails out of
  the \<open>int64\<close> range. Input after the number is not read. Characters are
  bytes here, so only the ASCII spaces are skipped.
\<close>

definition go_is_space :: "char \<Rightarrow> bool" where
  "go_is_space c \<longleftrightarrow> c \<in> {CHR '' '', CHR 0x09, CHR 0x0B, CHR 0x0C, CHR 0x0D}"

definition is_digit :: "char \<Rightarrow> bool" where
  "is_digit c \<longleftrightarrow> (48::nat) \<le> of_char c \<and> of_char c \<le> (57::nat)"

fun digits_value :: "int \<Rightarrow> char list \<Rightarrow> int" where
  "digits_value acc [] = acc"
| "digits_value acc (c # cs) = digits_value (acc * 10 + (of_char c - 48)) cs"

definition scan_sign :: "string \<Rightarrow> bool \<times> string" where
  "scan_sign s = (case s of
                    c # r \<Rightarrow> if c = CHR ''-'' then (True, r) else if c = CHR ''+'' then (False, r) else (False, s)
                  | [] \<Rightarrow> (False, []))"

definition scan_int :: "string \<Rightarrow> int option" where
  "scan_int s =
     (let (neg, s2) = scan_sign (dropWhile go_is_space s);
          tok = takeWhile is_digit s2;
          v = digits_value 0 tok;
          i = (if neg then - v else v)
      in if tok = [] then None
         else if i < - (2 ^ 63) \<or> 2 ^ 63 - 1 < i then None
         else Some i)"

definition get_env_int :: "environment \<Rightarrow> string \<Rightarrow> int \<Rightarrow> int" where
  "get_env_int env key default_value =
     (let value = os_getenv env key in
      if value \<noteq> [] then (case scan_int value of Some i \<Rightarrow> i | None \<Rightarrow> 0)
      else default_value)"

definition load_config :: "environment \<Rightarrow> config" where
  "load_config env =
     (let address = get_env env ''ADDRESS'' '':8080'';
          max_memory_mb = get_env_int env ''MAX_MEMORY_MB'' 2048
      in \<lparr>cfg_address = address, cfg_max_memory = word_of_int max_memory_mb * 1024 * 1024\<rparr>)"

text \<open>
  The decimal rendering of an integer (\<open>strconv.Itoa\<close>), the reference
  against which the parser is checked.
\<close>

fun nat_digits :: "nat \<Rightarrow> char list" where
  "nat_digits n = (if n < 10 then [char_of (48 + n)] else nat_digits (n div 10) @ [char_of (48 + n mod 10)])"

definition itoa :: "int \<Rightarrow> string" where
  "itoa i = (if i < 0 then CHR ''-'' # nat_digits (nat (- i)) else nat_digits (nat i))"

declare nat_digits.simps [simp del]

subsection \<open>Lemmas\<close>

lemma digits_value_append: "digits_value acc (xs @ ys) = digits_value (digits_value acc xs) ys"
  by (induction xs arbitrary: acc) simp_all

lemma digit_char_nat: "(m::nat) < 10 \<Longrightarrow> (of_char (char_of (48 + m)) :: nat) = 48 + m"
  by (simp add: of_char_of)

lemma digit_char [simp]: "(m::nat) < 10 \<Longrightarrow> (of_char (char_of (48 + m)) :: int) = 48 + int m"
  using digit_char_nat [of m] of_nat_of_char [of "char_of (48 + m)", where 'a = int] by simp

lemma nat_digits_digits: "\<forall>c \<in> set (nat_digits n). is_digit c"
proof (induction n rule: nat_digits.induct)
  case (1 n)
  then show ?case
    by (subst nat_digits.simps) (auto simp: is_digit_def digit_char_nat)
qed

lemma nat_digits_ne [simp]: "nat_digits n \<noteq> []"
  by (subst nat_digits.simps) simp

lemma nat_digits_value: "digits_value 0 (nat_digits n) = int n"
proof (induction n rule: nat_digits.induct)
  case (1 n)
  show ?case
  proof (cases "n < 10")
    case True
    then show ?thesis by (subst nat_digits.simps) simp
  next
    case False
    then have "digits_value 0 (nat_digits n) = int (n div 10) * 10 + int (n mod 10)"
      using 1 by (subst nat_digits.simps) (simp add: digits_value_append)
    also have "\<dots> = int (n div 10 * 10 + n mod 10)" by (simp only: of_nat_add of_nat_mult of_nat_numeral)
    also have "\<dots> = int n" by simp
    finally show ?thesis .
  qed
qed

lemma digit_not_space: "is_digit c \<Longrightarrow> \<not> go_is_space c"
  by (auto simp: is_digit_def go_is_space_def)

lemma digit_not_sign: "is_digit c \<Longrightarrow> c \<noteq> CHR ''-'' \<and> c \<noteq> CHR ''+''"
  by (auto simp: is_digit_def)

lemma dropWhile_spaces: "dropWhile go_is_space (replicate k (CHR '' '') @ xs) = dropWhile go_is_space xs"
  by (induction k) (simp_all add: go_is_space_def)

lemma takeWhile_digits:
  assumes ds: "\<forall>c \<in> set ds. is_digit c" and rest: "rest = [] \<or> \<not> is_digit (hd rest)"
  shows "takeWhile is_digit (ds @ rest) = ds"
  using rest by (cases rest) (simp_all add: takeWhile_append2 ds)

lemma nat_digits_hd: "\<exists>c cs. nat_digits n = c # cs \<and> is_digit c"
  using nat_digits_digits [of n] nat_digits_ne [of n] by (cases "nat_digits n") auto

lemma scan_nat_digits:
  assumes rest: "rest = [] \<or> \<not> is_digit (hd rest)"
  shows "scan_sign (dropWhile go_is_space (nat_digits n @ rest)) = (False, nat_digits n @ rest)"
    and "takeWhile is_digit (nat_digits n @ rest) = nat_digits n"
proof -
  obtain c cs where n: "nat_digits n = c # cs" and c: "is_digit c" using nat_digits_hd by blast
  show "scan_sign (dropWhile go_is_space (nat_digits n @ rest)) = (False, nat_digits n @ rest)"
    using digit_not_space [OF c] digit_not_sign [OF c] by (simp add: n scan_sign_def)
  show "takeWhile is_digit (nat_digits n @ rest) = nat_digits n"
    by (rule takeWhile_digits [OF nat_digits_digits rest])
qed

text \<open>
  C31. Round trip of the configuration parser: \<open>Sscanf("%d")\<close> reads back
  every \<open>int64\<close> from its decimal rendering, after any number of leading
  spaces and before any text that does not start with a digit.
\<close>

theorem scan_int_itoa:
  assumes lo: "- (2 ^ 63) \<le> i" and hi: "i \<le> 2 ^ 63 - 1" and rest: "rest = [] \<or> \<not> is_digit (hd rest)"
  shows "scan_int (replicate k (CHR '' '') @ itoa i @ rest) = Some i"
proof (cases "i < 0")
  case True
  have d: "\<not> go_is_space (CHR ''-'')" by (simp add: go_is_space_def)
  have v: "digits_value 0 (nat_digits (nat (- i))) = - i" using True by (simp add: nat_digits_value)
  show ?thesis
    using True lo hi v scan_nat_digits(2) [OF rest, of "nat (- i)"]
    by (simp add: scan_int_def itoa_def dropWhile_spaces d scan_sign_def)
next
  case False
  have v: "digits_value 0 (nat_digits (nat i)) = i" using False by (simp add: nat_digits_value)
  show ?thesis
    using False lo hi v scan_nat_digits [OF rest, of "nat i"]
    by (simp add: scan_int_def itoa_def dropWhile_spaces)
qed

theorem scan_int_itoa_witness:
  "scan_int (replicate 2 (CHR '' '') @ itoa (-4096) @ ''MB'') = Some (-4096)"
  by (rule scan_int_itoa) (simp_all add: is_digit_def)

lemma load_config_memory_word:
  "cfg_max_memory (load_config env) = word_of_int (get_env_int env ''MAX_MEMORY_MB'' 2048 * 1048576)"
  by (simp add: load_config_def Let_def wi_hom_mult)

text \<open>
  C32. The memory budget is the configured number of megabytes times
  \<open>2^20\<close> exactly when that product fits in \<open>int64\<close>, i.e. for fewer
  than \<open>2^43\<close> megabytes in absolute value; beyond, \<open>int64\<close>
  multiplication wraps.
\<close>

theorem load_config_max_memory:
  assumes lo: "- (2 ^ 43) \<le> get_env_int env ''MAX_MEMORY_MB'' 2048"
    and hi: "get_env_int env ''MAX_MEMORY_MB'' 2048 < 2 ^ 43"
  shows "sint (cfg_max_memory (load_config env)) = get_env_int env ''MAX_MEMORY_MB'' 2048 * 1048576"
proof -
  let ?m = "get_env_int env ''MAX_MEMORY_MB'' 2048"
  have b: "- (2 ^ 63) \<le> ?m * 1048576" "?m * 1048576 < 2 ^ 63" using lo hi by simp_all
  have "sint (word_of_int (?m * 1048576) :: int64) = signed_take_bit 63 (?m * 1048576)"
    by (simp only: sint_sbintrunc') simp
  also have "\<dots> = ?m * 1048576" by (rule signed_take_bit_int_eq_self [OF b])
  finally show ?thesis by (simp only: load_config_memory_word)
qed

theorem load_config_max_memory_witness:
  "sint (cfg_max_memory (load_config (Map.empty(''MAX_MEMORY_MB'' \<mapsto> ''512'')))) = 536870912"
proof -
  have m: "get_env_int (Map.empty(''MAX_MEMORY_MB'' \<mapsto> ''512'')) ''MAX_MEMORY_MB'' 2048 = 512"
    by (simp add: get_env_int_def os_getenv_def scan_int_def scan_sign_def go_is_space_def is_digit_def)
  show ?thesis using load_config_max_memory [where env = "Map.empty(''MAX_MEMORY_MB'' \<mapsto> ''512'')"] m by simp
qed

text \<open>
  C33. The error path of \<open>getEnvInt\<close>: for every environment in which
  \<open>MAX_MEMORY_MB\<close> is set to a non-empty value that \<open>Sscanf("%d")\<close>
  rejects (no digits after the spaces and sign, or out of the \<open>int64\<close>
  range), the ignored error leaves the value at 0, so the memory budget is 0,
  whereas with the variable unset it is the 2 GiB default.
\<close>

theorem load_config_invalid_memory:
  assumes set: "env ''MAX_MEMORY_MB'' = Some v" and ne: "v \<noteq> []" and bad: "scan_int v = None"
  shows "cfg_max_memory (load_config env) = 0
         \<and> sint (cfg_max_memory (load_config (env(''MAX_MEMORY_MB'' := None)))) = 2147483648"
proof
  show "cfg_max_memory (load_config env) = 0"
    using set ne bad by (simp add: load_config_memory_word get_env_int_def os_getenv_def)
  show "sint (cfg_max_memory (load_config (env(''MAX_MEMORY_MB'' := None)))) = 2147483648"
    by (simp add: load_config_memory_word get_env_int_def os_getenv_def)
qed

theorem load_config_invalid_memory_witness:
  "cfg_max_memory (load_config (Map.empty(''MAX_MEMORY_MB'' \<mapsto> ''lots''))) = 0
   \<and> sint (cfg_max_memory (load_config ((Map.empty(''MAX_MEMORY_MB'' \<mapsto> ''lots''))(''MAX_MEMORY_MB'' := None)))) = 2147483648"
  by (rule load_config_invalid_memory [where v = "''lots''"])
     (simp_all add: scan_int_def scan_sign_def go_is_space_def is_digit_def)

end
