(* ===== verification/Topic.thy ===== *)
theory Topic
  imports RecentCache Subscriber "HOL-Library.AList"
begin

text \<open>
  One topic of \<open>src/internal/core/topic.go\<close> (its first part): the
  subscriber map, the recent-message cache, the counters, and the operations
  \<open>Publish\<close>, \<open>sendRecentMessages\<close>, \<open>Subscribe\<close>, \<open>Unsubscribe\<close> and the
  counts. Subscribers are shared objects: the topic's map, the fan-out
  goroutines of a publish, the catch-up goroutine and the subscribe handler all
  hold the same \<open>*Subscriber\<close>. The model therefore keeps the subscribers in
  an explicit store from references to subscriber states, and the topic's map
  (a Go map, an association list with distinct keys here) holds references.
  A reference missing from the store is a nil pointer.
\<close>

type_synonym sub_ref = nat
type_synonym sub_store = "sub_ref \<Rightarrow> subscriber option"

datatype topic_error = TenantMismatch | SubscriberNotFound string | TopicNotFound string

record topic =
  tp_name :: string
  tp_tenant :: string
  tp_subscribers :: "(string \<times> sub_ref) list"
  tp_cache :: recent_cache
  tp_messages_published :: "64 word"
  tp_total_subscribers :: "64 word"
  tp_created_at :: time_ns

definition new_topic :: "string \<Rightarrow> string \<Rightarrow> int \<Rightarrow> time_ns \<Rightarrow> topic go_result" where
  "new_topic name tenant cache_size now =
     go_bind (new_recent_message_cache cache_size) (\<lambda>c.
       Inr \<lparr>tp_name = name, tp_tenant = tenant, tp_subscribers = [], tp_cache = c,
            tp_messages_published = 0, tp_total_subscribers = 0, tp_created_at = now\<rparr>)"

text \<open>
  \<open>getSubscribersSnapshot\<close> copies the map's values. Go iterates a map in
  an unspecified order; the model takes the association list's order and the
  lemmas show that the result of a fan-out does not depend on it.
\<close>

definition get_subscribers_snapshot :: "topic \<Rightarrow> sub_ref list" where
  "get_subscribers_snapshot t = map snd (tp_subscribers t)"

text \<open>A method call through a pointer: a nil pointer panics.\<close>

definition with_sub :: "sub_store \<Rightarrow> sub_ref \<Rightarrow> (subscriber \<Rightarrow> 'a go_result) \<Rightarrow> 'a go_result" where
  "with_sub st r f = (case st r of None \<Rightarrow> Inl NilPointerDereference | Some s \<Rightarrow> f s)"

text \<open>\<open>s.SendMessages(msg)\<close> on the subscriber at \<open>r\<close>.\<close>

definition store_send ::
  "sub_store \<Rightarrow> sub_ref \<Rightarrow> message \<Rightarrow> (sub_store \<times> send_error option) go_result" where
  "store_send st r msg =
     with_sub st r (\<lambda>s. go_bind (send_messages s msg) (\<lambda>(s', e). Inr (st(r \<mapsto> s'), e)))"

text \<open>
  The fan-out of \<open>Publish\<close>: one goroutine per subscriber of the snapshot,
  each calling \<open>SendMessages\<close>; errors are printed and ignored, a panic in
  any of them stops the process. The goroutines run in parallel; the model
  runs them in the snapshot's order, and the lemmas show that every order
  gives the same result.
\<close>

fun fan_out :: "sub_store \<Rightarrow> message \<Rightarrow> sub_ref list \<Rightarrow> sub_store go_result" where
  "fan_out st msg [] = Inr st"
| "fan_out st msg (r # rs) = go_bind (store_send st r msg) (\<lambda>(st', _). fan_out st' msg rs)"

text \<open>
  The part of \<open>Publish\<close> before the fan-out: the counter, the cache, and the
  snapshot of the subscriber map.
\<close>

definition topic_publish_begin :: "message \<Rightarrow> topic \<Rightarrow> (topic \<times> sub_ref list) go_result" where
  "topic_publish_begin msg t =
     (let t1 = t\<lparr>tp_messages_published := tp_messages_published t + 1\<rparr> in
      go_bind (rc_add (tp_cache t1) msg) (\<lambda>c.
        let t2 = t1\<lparr>tp_cache := c\<rparr> in Inr (t2, get_subscribers_snapshot t2)))"

text \<open>\<open>Publish\<close> run without interruption: the fan-out follows the snapshot at once.\<close>

definition topic_publish :: "message \<Rightarrow> topic \<Rightarrow> sub_store \<Rightarrow> (topic \<times> sub_store) go_result" where
  "topic_publish msg t st =
     go_bind (topic_publish_begin msg t) (\<lambda>(t', subs).
       if subs = [] then Inr (t', st) else go_bind (fan_out st msg subs) (\<lambda>st'. Inr (t', st')))"

text \<open>
  \<open>sendRecentMessages\<close>: the catch-up goroutine reads the last 50 messages
  of the cache and sends them in order, returning at the first error.
\<close>

fun send_recent :: "sub_store \<Rightarrow> sub_ref \<Rightarrow> message list \<Rightarrow> sub_store go_result" where
  "send_recent st r [] = Inr st"
| "send_recent st r (m # ms) =
     go_bind (store_send st r m) (\<lambda>(st', e). if e = None then send_recent st' r ms else Inr st')"

definition send_recent_messages :: "topic \<Rightarrow> sub_store \<Rightarrow> sub_ref \<Rightarrow> sub_store go_result" where
  "send_recent_messages t st r = go_bind (rc_get_last (tp_cache t) 50) (send_recent st r)"

text \<open>
  \<open>Subscribe\<close>: the tenant check, the map assignment \<open>subscribers[sub.ID] = sub\<close>
  (which replaces an entry with the same id), the counter, and \<open>sub.Start()\<close>.
  The catch-up goroutine it spawns (\<open>go t.sendRecentMessages(sub)\<close>) is a
  task of the caller's state, run later as a step of its own.
\<close>

definition topic_subscribe ::
  "sub_ref \<Rightarrow> topic \<Rightarrow> sub_store \<Rightarrow> (topic_error + topic \<times> sub_store) go_result" where
  "topic_subscribe r t st =
     with_sub st r (\<lambda>s.
       if tp_tenant t \<noteq> sub_tenant s then Inr (Inl TenantMismatch)
       else Inr (Inr (t\<lparr>tp_subscribers := AList.update (sub_id s) r (tp_subscribers t),
                        tp_total_subscribers := tp_total_subscribers t + 1\<rparr>,
                      st(r \<mapsto> sub_start s))))"

text \<open>\<open>Unsubscribe\<close>: remove from the map, then \<open>Close\<close> the subscriber.\<close>

definition topic_unsubscribe ::
  "string \<Rightarrow> topic \<Rightarrow> sub_store \<Rightarrow> (topic_error + topic \<times> sub_store) go_result" where
  "topic_unsubscribe i t st =
     (case map_of (tp_subscribers t) i of
        None \<Rightarrow> Inr (Inl (SubscriberNotFound i))
      | Some r \<Rightarrow>
          with_sub st r (\<lambda>s. Inr (Inr (t\<lparr>tp_subscribers := AList.delete i (tp_subscribers t)\<rparr>,
                                       st(r \<mapsto> sub_close s)))))"

definition get_subscriber_count :: "topic \<Rightarrow> nat" where
  "get_subscriber_count t = length (tp_subscribers t)"

fun count_slow :: "sub_store \<Rightarrow> sub_ref list \<Rightarrow> nat go_result" where
  "count_slow st [] = Inr 0"
| "count_slow st (r # rs) =
     with_sub st r (\<lambda>s. go_bind (count_slow st rs) (\<lambda>n. Inr (if sub_is_slow s then n + 1 else n)))"

definition get_slow_subscriber_count :: "sub_store \<Rightarrow> topic \<Rightarrow> nat go_result" where
  "get_slow_subscriber_count st t = count_slow st (map snd (tp_subscribers t))"

definition topic_get_metrics :: "topic \<Rightarrow> string \<times> string \<times> int \<times> nat \<times> int \<times> time_ns" where
  "topic_get_metrics t =
     (tp_name t, tp_tenant t, sint (tp_messages_published t), length (tp_subscribers t),
      sint (tp_total_subscribers t), tp_created_at t)"

text \<open>
  The goroutines a topic leaves running: one \<open>Deliver\<close> per fan-out
  goroutine of a publish not yet finished, and one \<open>CatchUp\<close> per
  \<open>sendRecentMessages\<close> goroutine, before (\<open>None\<close>) or after it has read
  the cache (the messages it has still to send).
\<close>

datatype task = Deliver sub_ref message | CatchUp sub_ref "message list option"

definition remove_nth :: "nat \<Rightarrow> 'a list \<Rightarrow> 'a list" where
  "remove_nth i xs = take i xs @ drop (Suc i) xs"

text \<open>
  Every state of one topic, its subscribers and its goroutines: the topic is
  created (the topic manager always gives a cache of 100); the subscribe
  handler creates subscribers in fresh store cells; \<open>Publish\<close> takes its
  snapshot and leaves one delivery per subscriber of it; the deliveries, the
  catch-up goroutines, \<open>Subscribe\<close>, \<open>Unsubscribe\<close>, the send loops of the
  subscribers, \<open>Close\<close> and the cancellation of a request context then
  interleave in any order. A step that panics stops the process and has no
  successor.
\<close>

inductive topic_reach :: "topic \<Rightarrow> sub_store \<Rightarrow> task list \<Rightarrow> bool" where
  new: "0 < sz \<Longrightarrow> new_topic name tenant sz now = Inr t \<Longrightarrow> topic_reach t st []"
| alloc: "topic_reach t st ts \<Longrightarrow> st r = None \<Longrightarrow> new_subscriber i tn tp buf now = Inr s \<Longrightarrow>
          topic_reach t (st(r \<mapsto> s)) ts"
| publish: "topic_reach t st ts \<Longrightarrow> topic_publish_begin msg t = Inr (t', rs) \<Longrightarrow>
            topic_reach t' st (ts @ map (\<lambda>r. Deliver r msg) rs)"
| deliver: "topic_reach t st ts \<Longrightarrow> i < length ts \<Longrightarrow> ts ! i = Deliver r m \<Longrightarrow>
            store_send st r m = Inr (st', e) \<Longrightarrow> topic_reach t st' (remove_nth i ts)"
| subscribe: "topic_reach t st ts \<Longrightarrow> topic_subscribe r t st = Inr (Inr (t', st')) \<Longrightarrow>
              topic_reach t' st' (ts @ [CatchUp r None])"
| catchup_read: "topic_reach t st ts \<Longrightarrow> i < length ts \<Longrightarrow> ts ! i = CatchUp r None \<Longrightarrow>
                 rc_get_last (tp_cache t) 50 = Inr ms \<Longrightarrow> topic_reach t st (ts[i := CatchUp r (Some ms)])"
| catchup_send: "topic_reach t st ts \<Longrightarrow> i < length ts \<Longrightarrow> ts ! i = CatchUp r (Some (m # ms)) \<Longrightarrow>
                 store_send st r m = Inr (st', e) \<Longrightarrow>
                 topic_reach t st' (if e = None then ts[i := CatchUp r (Some ms)] else remove_nth i ts)"
| catchup_done: "topic_reach t st ts \<Longrightarrow> i < length ts \<Longrightarrow> ts ! i = CatchUp r (Some []) \<Longrightarrow>
                 topic_reach t st (remove_nth i ts)"
| unsubscribe: "topic_reach t st ts \<Longrightarrow> topic_unsubscribe i t st = Inr (Inr (t', st')) \<Longrightarrow>
                topic_reach t' st' ts"
| loop: "topic_reach t st ts \<Longrightarrow> st r = Some s \<Longrightarrow> send_loop_step now ev s = Some (s', out) \<Longrightarrow>
         topic_reach t (st(r \<mapsto> s')) ts"
| close: "topic_reach t st ts \<Longrightarrow> st r = Some s \<Longrightarrow> topic_reach t (st(r \<mapsto> sub_close s)) ts"
| cancel: "topic_reach t st ts \<Longrightarrow> st r = Some s \<Longrightarrow>
           topic_reach t (st(r \<mapsto> sub_cancel_parent s)) ts"

fun task_ref :: "task \<Rightarrow> sub_ref" where
  "task_ref (Deliver r _) = r"
| "task_ref (CatchUp r _) = r"

subsection \<open>Invariant and abstract fan-out\<close>

text \<open>
  The topic's map has distinct keys, its cache is well formed, and every entry
  \<open>(i, r)\<close> points to a subscriber with id \<open>i\<close> and the topic's tenant (the
  tenant invariant of the specification); every pending goroutine's
  subscriber exists.
\<close>

definition topic_wf :: "topic \<Rightarrow> sub_store \<Rightarrow> bool" where
  "topic_wf t st \<longleftrightarrow> distinct (map fst (tp_subscribers t)) \<and> rc_wf (tp_cache t)
     \<and> (\<forall>(i, r) \<in> set (tp_subscribers t).
          \<exists>s. st r = Some s \<and> sub_id s = i \<and> sub_tenant s = tp_tenant t)"

definition topic_inv :: "topic \<Rightarrow> sub_store \<Rightarrow> task list \<Rightarrow> bool" where
  "topic_inv t st ts \<longleftrightarrow> topic_wf t st \<and> (\<forall>x \<in> set ts. task_ref x \<in> dom st)"

text \<open>A store step that keeps every subscriber, with its id and tenant.\<close>

definition store_keeps :: "sub_store \<Rightarrow> sub_store \<Rightarrow> bool" where
  "store_keeps st st' \<longleftrightarrow>
     (\<forall>r s. st r = Some s \<longrightarrow> (\<exists>s'. st' r = Some s' \<and> sub_id s' = sub_id s \<and> sub_tenant s' = sub_tenant s))"

text \<open>
  The abstract fan-out: every subscriber of a set receives the message once,
  as \<open>SendMessages\<close> on an open subscriber does; the others are untouched.
\<close>

definition send_result :: "subscriber \<Rightarrow> message \<Rightarrow> subscriber" where
  "send_result s msg = (case send_messages s msg of Inr (s', _) \<Rightarrow> s' | Inl _ \<Rightarrow> s)"

definition fan_out_spec :: "sub_store \<Rightarrow> message \<Rightarrow> sub_ref set \<Rightarrow> sub_store" where
  "fan_out_spec st msg R = (\<lambda>r. if r \<in> R then map_option (\<lambda>s. send_result s msg) (st r) else st r)"

text \<open>
  The concrete runs of the scenarios: topic \<open>orders\<close> of tenant \<open>acme\<close>
  with a cache of 2, subscriber \<open>a\<close> with an inbox of 2 in store cell 0.
\<close>

abbreviation ex_topic :: topic where
  "ex_topic \<equiv> projr (new_topic ''orders'' ''acme'' 2 0)"

abbreviation ex_sub :: subscriber where
  "ex_sub \<equiv> projr (new_subscriber ''a'' ''acme'' ''orders'' 2 0)"

abbreviation ex_msg :: message where
  "ex_msg \<equiv> example_message ''m1''"

abbreviation ex_t1 :: topic where
  "ex_t1 \<equiv> ex_topic\<lparr>tp_subscribers := [(''a'', 0)], tp_total_subscribers := 1\<rparr>"

abbreviation ex_st1 :: sub_store where
  "ex_st1 \<equiv> Map.empty(0 \<mapsto> sub_start ex_sub)"

abbreviation ex_t2 :: topic where
  "ex_t2 \<equiv> fst (projr (topic_publish_begin ex_msg ex_t1))"

subsection \<open>Lemmas\<close>

lemma set_update_sub: "set (AList.update k v al) \<subseteq> insert (k, v) (set al)"
  by (induction al) auto

lemma set_delete_sub: "set (AList.delete k al) \<subseteq> set al"
  by (induction al) auto

lemma set_remove_nth: "set (remove_nth i xs) \<subseteq> set xs"
  by (auto simp: remove_nth_def dest: in_set_takeD in_set_dropD)

lemma delete_length:
  "distinct (map fst xs) \<Longrightarrow> map_of xs i = Some r \<Longrightarrow> Suc (length (AList.delete i xs)) = length xs"
proof (induction xs)
  case Nil
  then show ?case by simp
next
  case (Cons p xs)
  then show ?case
    by (cases "fst p = i") (auto simp: delete_id image_iff split: if_splits)
qed

lemma sub_close_ids [simp]:
  "sub_id (sub_close s) = sub_id s" "sub_tenant (sub_close s) = sub_tenant s"
  "sub_topic (sub_close s) = sub_topic s"
  by (simp_all add: sub_close_def)

lemma handle_back_pressure_ids:
  "handle_back_pressure s msg = (s', e) \<Longrightarrow> sub_id s' = sub_id s \<and> sub_tenant s' = sub_tenant s"
  by (auto simp: handle_back_pressure_def sub_close_def Let_def
           split: drop_strategy.splits list.splits if_splits)

lemma send_messages_ids:
  "send_messages s msg = Inr (s', e) \<Longrightarrow> sub_id s' = sub_id s \<and> sub_tenant s' = sub_tenant s"
  by (auto simp: send_messages_def Let_def split: if_splits dest!: handle_back_pressure_ids)

lemma send_loop_step_ids:
  "send_loop_step now ev s = Some (s', out) \<Longrightarrow> sub_id s' = sub_id s \<and> sub_tenant s' = sub_tenant s"
  by (auto simp: send_loop_step_def loop_exit_def sub_close_def Let_def
           split: loop_event.splits list.splits if_splits)

lemma send_messages_open:
  "\<not> sub_closed s \<Longrightarrow> \<exists>e. send_messages s msg = Inr (send_result s msg, e)"
  by (cases "send_messages s msg") (auto simp: send_result_def send_messages_def Let_def split: if_split_asm)

lemma send_messages_closed: "sub_closed s \<Longrightarrow> send_messages s msg = Inl SendOnClosedChannel"
  by (simp add: send_messages_def)

lemma send_messages_room:
  "\<not> sub_closed s \<Longrightarrow> int (length (sub_inbox s)) < sub_capacity s \<Longrightarrow>
   send_messages s m = Inr (s\<lparr>sub_received := Suc (sub_received s), sub_inbox := sub_inbox s @ [m]\<rparr>, None)"
  by (simp add: send_messages_def chan_has_room_def)

lemma store_keeps_refl [simp]: "store_keeps st st"
  by (simp add: store_keeps_def)

lemma store_keeps_trans: "store_keeps st1 st2 \<Longrightarrow> store_keeps st2 st3 \<Longrightarrow> store_keeps st1 st3"
  unfolding store_keeps_def by (metis)

lemma store_keeps_upd:
  "st r = Some s \<Longrightarrow> sub_id s' = sub_id s \<Longrightarrow> sub_tenant s' = sub_tenant s \<Longrightarrow> store_keeps st (st(r \<mapsto> s'))"
  by (simp add: store_keeps_def)

lemma store_keeps_alloc: "st r = None \<Longrightarrow> store_keeps st (st(r \<mapsto> s))"
  by (simp add: store_keeps_def)

lemma store_keeps_dom: "store_keeps st st' \<Longrightarrow> dom st \<subseteq> dom st'"
  by (auto simp: store_keeps_def)

lemma store_send_keeps: "store_send st r msg = Inr (st', e) \<Longrightarrow> store_keeps st st'"
  by (auto simp: store_send_def with_sub_def split: option.splits
           dest!: send_messages_ids intro!: store_keeps_upd)

lemma fan_out_keeps: "fan_out st msg rs = Inr st' \<Longrightarrow> store_keeps st st'"
  by (induction rs arbitrary: st) (auto dest!: store_send_keeps intro: store_keeps_trans)

lemma store_send_open:
  "st r = Some s \<Longrightarrow> \<not> sub_closed s \<Longrightarrow>
   \<exists>e. store_send st r msg = Inr (st(r \<mapsto> send_result s msg), e)"
  using send_messages_open [of s msg] by (auto simp: store_send_def with_sub_def)

lemma store_send_closed:
  "st r = Some s \<Longrightarrow> sub_closed s \<Longrightarrow> store_send st r msg = Inl SendOnClosedChannel"
  by (simp add: store_send_def with_sub_def send_messages_closed)

lemma topic_wf_keeps: "topic_wf t st \<Longrightarrow> store_keeps st st' \<Longrightarrow> topic_wf t st'"
  unfolding topic_wf_def store_keeps_def by fastforce

lemma topic_wf_upd:
  "topic_wf t st \<Longrightarrow> st r = Some s \<Longrightarrow> sub_id s' = sub_id s \<Longrightarrow> sub_tenant s' = sub_tenant s \<Longrightarrow>
   topic_wf t (st(r \<mapsto> s'))"
  by (rule topic_wf_keeps [OF _ store_keeps_upd])

lemma topic_wf_snapshot:
  assumes "topic_wf t st"
  shows "distinct (get_subscribers_snapshot t)" and "set (get_subscribers_snapshot t) \<subseteq> dom st"
proof -
  have keys: "distinct (map fst (tp_subscribers t))"
    and ent: "\<And>i r. (i, r) \<in> set (tp_subscribers t) \<Longrightarrow> \<exists>s. st r = Some s \<and> sub_id s = i"
    using assms by (auto simp: topic_wf_def)
  have "inj_on snd (set (tp_subscribers t))"
  proof (rule inj_onI)
    fix x y assume x: "x \<in> set (tp_subscribers t)" and y: "y \<in> set (tp_subscribers t)"
      and eq: "snd x = snd y"
    obtain sx where "st (snd x) = Some sx" "sub_id sx = fst x" using ent [of "fst x" "snd x"] x by auto
    moreover obtain sy where "st (snd y) = Some sy" "sub_id sy = fst y" using ent [of "fst y" "snd y"] y by auto
    ultimately have "fst x = fst y" using eq by simp
    with eq show "x = y" by (simp add: prod_eq_iff)
  qed
  then show "distinct (get_subscribers_snapshot t)"
    using keys by (simp add: get_subscribers_snapshot_def distinct_map distinct_map [of fst])
  show "set (get_subscribers_snapshot t) \<subseteq> dom st"
    using ent by (force simp: get_subscribers_snapshot_def)
qed

lemma snapshot_delete:
  assumes "topic_wf t st" and "map_of (tp_subscribers t) i = Some r"
  shows "r \<notin> set (map snd (AList.delete i (tp_subscribers t)))"
proof
  assume "r \<in> set (map snd (AList.delete i (tp_subscribers t)))"
  then obtain j where jd: "(j, r) \<in> set (AList.delete i (tp_subscribers t))" by auto
  then have j: "(j, r) \<in> set (tp_subscribers t)" "j \<noteq> i"
    using set_delete_sub [of i "tp_subscribers t"] delete_notin_dom [of i "tp_subscribers t"]
    by (auto simp: image_iff)
  have ir: "(i, r) \<in> set (tp_subscribers t)" using assms(2) by (rule map_of_SomeD)
  have "distinct (map snd (tp_subscribers t))"
    using topic_wf_snapshot(1) [OF assms(1)] by (simp add: get_subscribers_snapshot_def)
  then have "inj_on snd (set (tp_subscribers t))" by (simp add: distinct_map)
  then have "(j, r) = (i, r)" using j(1) ir by (metis inj_onD snd_conv)
  with j(2) show False by simp
qed

lemma topic_wf_new:
  "0 < sz \<Longrightarrow> new_topic name tenant sz now = Inr t \<Longrightarrow> topic_wf t st"
  using new_cache_wf [of sz] by (auto simp: new_topic_def topic_wf_def)

lemma topic_publish_begin_Inr:
  "topic_publish_begin msg t = Inr (t', rs) \<Longrightarrow>
   \<exists>c. rc_add (tp_cache t) msg = Inr c
     \<and> t' = t\<lparr>tp_messages_published := tp_messages_published t + 1, tp_cache := c\<rparr>
     \<and> rs = get_subscribers_snapshot t"
  by (auto simp: topic_publish_begin_def Let_def get_subscribers_snapshot_def)

lemma topic_wf_publish_begin:
  assumes wf: "topic_wf t st" and pub: "topic_publish_begin msg t = Inr (t', rs)"
  shows "topic_wf t' st"
  using topic_publish_begin_Inr [OF pub] wf by (auto simp: topic_wf_def dest: rc_add_wf)

lemma topic_subscribe_Inr:
  "topic_subscribe r t st = Inr (Inr (t', st')) \<Longrightarrow>
   \<exists>s. st r = Some s \<and> tp_tenant t = sub_tenant s
     \<and> t' = t\<lparr>tp_subscribers := AList.update (sub_id s) r (tp_subscribers t),
                tp_total_subscribers := tp_total_subscribers t + 1\<rparr>
     \<and> st' = st(r \<mapsto> sub_start s)"
  by (auto simp: topic_subscribe_def with_sub_def split: option.splits if_splits)

lemma topic_wf_subscribe:
  assumes wf: "topic_wf t st" and sub: "topic_subscribe r t st = Inr (Inr (t', st'))"
  shows "topic_wf t' st'"
proof -
  obtain s where s: "st r = Some s" and ten: "tp_tenant t = sub_tenant s"
    and t': "t' = t\<lparr>tp_subscribers := AList.update (sub_id s) r (tp_subscribers t),
                     tp_total_subscribers := tp_total_subscribers t + 1\<rparr>"
    and st': "st' = st(r \<mapsto> sub_start s)"
    using topic_subscribe_Inr [OF sub] by blast
  have keeps: "store_keeps st st'" using s st' by (simp add: store_keeps_upd sub_start_def)
  have old: "topic_wf t st'" using wf keeps by (rule topic_wf_keeps)
  have ent: "\<forall>(i, r') \<in> set (AList.update (sub_id s) r (tp_subscribers t)).
               \<exists>s'. st' r' = Some s' \<and> sub_id s' = i \<and> sub_tenant s' = tp_tenant t"
  proof
    fix x assume "x \<in> set (AList.update (sub_id s) r (tp_subscribers t))"
    then have "x = (sub_id s, r) \<or> x \<in> set (tp_subscribers t)"
      using set_update_sub [of "sub_id s" r "tp_subscribers t"] by blast
    then show "case x of (i, r') \<Rightarrow> \<exists>s'. st' r' = Some s' \<and> sub_id s' = i \<and> sub_tenant s' = tp_tenant t"
    proof
      assume "x = (sub_id s, r)"
      then show ?thesis using st' ten by (simp add: sub_start_def)
    next
      assume "x \<in> set (tp_subscribers t)"
      then show ?thesis using old by (auto simp: topic_wf_def)
    qed
  qed
  show ?thesis
    using old ent by (simp add: topic_wf_def t' distinct_update)
qed

lemma topic_unsubscribe_Inr:
  "topic_unsubscribe i t st = Inr (Inr (t', st')) \<Longrightarrow>
   \<exists>r s. map_of (tp_subscribers t) i = Some r \<and> st r = Some s
     \<and> t' = t\<lparr>tp_subscribers := AList.delete i (tp_subscribers t)\<rparr> \<and> st' = st(r \<mapsto> sub_close s)"
  by (cases "map_of (tp_subscribers t) i"; cases "st (the (map_of (tp_subscribers t) i))")
     (simp_all add: topic_unsubscribe_def with_sub_def)

lemma topic_wf_unsubscribe:
  assumes wf: "topic_wf t st" and un: "topic_unsubscribe i t st = Inr (Inr (t', st'))"
  shows "topic_wf t' st'"
proof -
  obtain r s where s: "st r = Some s"
    and t': "t' = t\<lparr>tp_subscribers := AList.delete i (tp_subscribers t)\<rparr>"
    and st': "st' = st(r \<mapsto> sub_close s)"
    using topic_unsubscribe_Inr [OF un] by blast
  have "store_keeps st st'" using s st' by (simp add: store_keeps_upd)
  with wf have "topic_wf t st'" by (rule topic_wf_keeps)
  then have d: "distinct (map fst (tp_subscribers t))" and c: "rc_wf (tp_cache t)"
    and e: "\<forall>(j, r') \<in> set (tp_subscribers t). \<exists>s'. st' r' = Some s' \<and> sub_id s' = j \<and> sub_tenant s' = tp_tenant t"
    by (simp_all add: topic_wf_def)
  have "\<forall>(j, r') \<in> set (AList.delete i (tp_subscribers t)).
          \<exists>s'. st' r' = Some s' \<and> sub_id s' = j \<and> sub_tenant s' = tp_tenant t"
    using e set_delete_sub [of i "tp_subscribers t"] by blast
  then show ?thesis using distinct_delete [OF d] c by (simp add: topic_wf_def t')
qed

lemma topic_inv_keeps:
  "topic_inv t st ts \<Longrightarrow> store_keeps st st' \<Longrightarrow> set ts' \<subseteq> set ts \<Longrightarrow> topic_inv t st' ts'"
  unfolding topic_inv_def by (blast dest: topic_wf_keeps store_keeps_dom)

lemma topic_inv_task_update:
  "topic_inv t st ts \<Longrightarrow> i < length ts \<Longrightarrow> task_ref x = task_ref (ts ! i) \<Longrightarrow> topic_inv t st (ts[i := x])"
  unfolding topic_inv_def by (auto dest!: set_update_subset_insert [THEN subsetD] nth_mem)

lemma topic_reach_inv: "topic_reach t st ts \<Longrightarrow> topic_inv t st ts"
proof (induction rule: topic_reach.induct)
  case (new sz name tenant now t st)
  then show ?case by (simp add: topic_inv_def topic_wf_new)
next
  case (alloc t st ts r i tn tp buf now s)
  show ?case by (rule topic_inv_keeps [OF alloc.IH store_keeps_alloc [of st r s]]) (simp_all add: alloc.hyps)
next
  case (publish t st ts msg t' rs)
  have wf: "topic_wf t st" using publish.IH by (simp add: topic_inv_def)
  then have "topic_wf t' st" using publish.hyps(2) by (rule topic_wf_publish_begin)
  moreover have "set rs \<subseteq> dom st"
    using topic_wf_snapshot(2) [OF wf] topic_publish_begin_Inr [OF publish.hyps(2)] by auto
  ultimately show ?case using publish.IH by (auto simp: topic_inv_def)
next
  case (deliver t st ts i r m st' e)
  show ?case by (rule topic_inv_keeps [OF deliver.IH store_send_keeps [OF deliver.hyps(4)] set_remove_nth])
next
  case (subscribe t st ts r t' st')
  have wf: "topic_wf t' st'"
    using subscribe.IH topic_wf_subscribe [OF _ subscribe.hyps(2)] by (simp add: topic_inv_def)
  obtain s where "st r = Some s" "st' = st(r \<mapsto> sub_start s)"
    using topic_subscribe_Inr [OF subscribe.hyps(2)] by blast
  then have "dom st' = dom st" "r \<in> dom st" by auto
  then show ?case using wf subscribe.IH by (auto simp: topic_inv_def)
next
  case (catchup_read t st ts i r ms)
  then show ?case by (intro topic_inv_task_update) simp_all
next
  case (catchup_send t st ts i r m ms st' e)
  have keeps: "store_keeps st st'" using catchup_send.hyps(4) by (rule store_send_keeps)
  have "topic_inv t st (ts[i := CatchUp r (Some ms)])"
    using catchup_send by (intro topic_inv_task_update) simp_all
  then have "topic_inv t st' (ts[i := CatchUp r (Some ms)])" using keeps by (rule topic_inv_keeps) simp
  moreover have "topic_inv t st' (remove_nth i ts)"
    by (rule topic_inv_keeps [OF catchup_send.IH keeps set_remove_nth])
  ultimately show ?case by simp
next
  case (catchup_done t st ts i r)
  show ?case by (rule topic_inv_keeps [OF catchup_done.IH store_keeps_refl set_remove_nth])
next
  case (unsubscribe t st ts i t' st')
  have wf: "topic_wf t' st'"
    using unsubscribe.IH topic_wf_unsubscribe [OF _ unsubscribe.hyps(2)] by (simp add: topic_inv_def)
  obtain r s where "st r = Some s" "st' = st(r \<mapsto> sub_close s)"
    using topic_unsubscribe_Inr [OF unsubscribe.hyps(2)] by blast
  then have "dom st' = dom st" by auto
  then show ?case using wf unsubscribe.IH by (auto simp: topic_inv_def)
next
  case (loop t st ts r s now ev s' out)
  then show ?case by (intro topic_inv_keeps [OF loop.IH] store_keeps_upd) (simp_all add: send_loop_step_ids)
next
  case (close t st ts r s)
  then show ?case by (intro topic_inv_keeps [OF close.IH] store_keeps_upd) simp_all
next
  case (cancel t st ts r s)
  then show ?case
    by (intro topic_inv_keeps [OF cancel.IH] store_keeps_upd) (simp_all add: sub_cancel_parent_def)
qed

lemma fan_out_eq:
  "distinct rs \<Longrightarrow> set rs \<subseteq> dom st \<Longrightarrow>
   fan_out st msg rs =
     (if \<exists>r \<in> set rs. \<exists>s. st r = Some s \<and> sub_closed s then Inl SendOnClosedChannel
      else Inr (fan_out_spec st msg (set rs)))"
proof (induction rs arbitrary: st)
  case Nil
  then show ?case by (simp add: fan_out_spec_def option.map_ident)
next
  case (Cons r rs)
  then obtain s where s: "st r = Some s" by auto
  show ?case
  proof (cases "sub_closed s")
    case True
    then show ?thesis using s by (auto simp: store_send_closed)
  next
    case False
    then obtain e where send: "store_send st r msg = Inr (st(r \<mapsto> send_result s msg), e)"
      using store_send_open [of st r s msg] s by blast
    have r: "r \<notin> set rs" using Cons.prems by simp
    have ih: "fan_out (st(r \<mapsto> send_result s msg)) msg rs =
      (if \<exists>r' \<in> set rs. \<exists>s'. st r' = Some s' \<and> sub_closed s' then Inl SendOnClosedChannel
       else Inr (fan_out_spec (st(r \<mapsto> send_result s msg)) msg (set rs)))"
    proof -
      have "distinct rs" "set rs \<subseteq> dom (st(r \<mapsto> send_result s msg))" using Cons.prems by auto
      moreover have "(\<exists>r' \<in> set rs. \<exists>s'. (st(r \<mapsto> send_result s msg)) r' = Some s' \<and> sub_closed s')
                   = (\<exists>r' \<in> set rs. \<exists>s'. st r' = Some s' \<and> sub_closed s')"
        using r by (metis fun_upd_other)
      ultimately show ?thesis using Cons.IH by presburger
    qed
    have "fan_out_spec (st(r \<mapsto> send_result s msg)) msg (set rs) = fan_out_spec st msg (insert r (set rs))"
      using r s by (auto simp: fan_out_spec_def)
    then show ?thesis using send ih s False by auto
  qed
qed

lemma fan_out_spec_empty [simp]: "fan_out_spec st msg {} = st"
  by (simp add: fan_out_spec_def)

lemma topic_publish_begin_ok:
  "topic_wf t st \<Longrightarrow> \<exists>c. topic_publish_begin msg t =
     Inr (t\<lparr>tp_messages_published := tp_messages_published t + 1, tp_cache := c\<rparr>, get_subscribers_snapshot t)
     \<and> rc_contents c = keep_last (nat (rc_size (tp_cache t))) (rc_contents (tp_cache t) @ [msg])"
  using rc_add_ok [of "tp_cache t" msg] rc_add_contents [of "tp_cache t" msg]
  by (auto simp: topic_wf_def topic_publish_begin_def Let_def get_subscribers_snapshot_def)

lemma send_recent_room:
  "st r = Some s \<Longrightarrow> \<not> sub_closed s \<Longrightarrow> int (length (sub_inbox s) + length ms) \<le> sub_capacity s \<Longrightarrow>
   send_recent st r ms =
     Inr (st(r \<mapsto> s\<lparr>sub_received := sub_received s + length ms, sub_inbox := sub_inbox s @ ms\<rparr>))"
proof (induction ms arbitrary: st s)
  case Nil
  then show ?case by (simp add: fun_upd_idem)
next
  case (Cons m ms)
  let ?s1 = "s\<lparr>sub_received := Suc (sub_received s), sub_inbox := sub_inbox s @ [m]\<rparr>"
  have "store_send st r m = Inr (st(r \<mapsto> ?s1), None)"
    using Cons.prems by (simp add: store_send_def with_sub_def send_messages_room)
  moreover have "send_recent (st(r \<mapsto> ?s1)) r ms =
     Inr ((st(r \<mapsto> ?s1))(r \<mapsto> ?s1\<lparr>sub_received := sub_received ?s1 + length ms, sub_inbox := sub_inbox ?s1 @ ms\<rparr>))"
    using Cons.prems by (intro Cons.IH) simp_all
  ultimately show ?case by (simp add: fun_eq_iff)
qed

lemma ex_subscribed:
  "topic_reach (ex_topic\<lparr>tp_subscribers := [(''a'', 0)], tp_total_subscribers := 1\<rparr>)
     (Map.empty(0 \<mapsto> sub_start ex_sub)) [CatchUp 0 None]"
proof -
  have r0: "topic_reach ex_topic Map.empty []"
    by (rule topic_reach.new [where sz = 2 and name = "''orders''" and tenant = "''acme''" and now = 0]) (simp_all add: new_topic_def new_recent_message_cache_def)
  have r1: "topic_reach ex_topic (Map.empty(0 \<mapsto> ex_sub)) []"
    by (rule topic_reach.alloc [OF r0, where i = "''a''" and tn = "''acme''" and tp = "''orders''" and buf = 2 and now = 0]) (simp_all add: new_subscriber_def)
  have "topic_subscribe 0 ex_topic (Map.empty(0 \<mapsto> ex_sub)) =
        Inr (Inr (ex_topic\<lparr>tp_subscribers := [(''a'', 0)], tp_total_subscribers := 1\<rparr>, (Map.empty(0 \<mapsto> sub_start ex_sub))))"
    by (simp add: topic_subscribe_def with_sub_def new_topic_def new_subscriber_def new_recent_message_cache_def)
  from topic_reach.subscribe [OF r1 this] show ?thesis by simp
qed

lemma ex_published:
  "topic_reach ex_t2 (Map.empty(0 \<mapsto> sub_start ex_sub)) [CatchUp 0 None, Deliver 0 ex_msg]"
proof -
  have "topic_publish_begin ex_msg ex_t1 = Inr (ex_t2, [0])"
    by (simp add: topic_publish_begin_def get_subscribers_snapshot_def rc_add_def go_update_def go_rem_def
                  new_topic_def new_recent_message_cache_def Let_def)
  from topic_reach.publish [OF ex_subscribed this] show ?thesis by simp
qed

lemma ex_unsubscribed:
  "topic_reach (ex_t2\<lparr>tp_subscribers := []\<rparr>) (Map.empty(0 \<mapsto> sub_close (sub_start ex_sub)))
     [CatchUp 0 None, Deliver 0 ex_msg]"
proof -
  have "topic_unsubscribe ''a'' ex_t2 ex_st1 =
        Inr (Inr (ex_t2\<lparr>tp_subscribers := []\<rparr>, Map.empty(0 \<mapsto> sub_close (sub_start ex_sub))))"
    by (simp add: topic_unsubscribe_def with_sub_def topic_publish_begin_def Let_def rc_add_def
                  go_update_def go_rem_def new_topic_def new_recent_message_cache_def)
  from topic_reach.unsubscribe [OF ex_published this] show ?thesis .
qed

lemma ex_t1_wf: "topic_wf ex_t1 ex_st1"
  by (simp add: topic_wf_def new_topic_def new_recent_message_cache_def new_subscriber_def
                sub_start_def rc_wf_def)

text \<open>
  C16. In every reachable state of a topic, each entry \<open>(i, r)\<close> of its
  subscriber map points to an existing subscriber whose id is \<open>i\<close> and whose
  tenant is the topic's tenant: \<open>Subscribe\<close>'s tenant check keeps the
  specification's tenant invariant.
\<close>

theorem topic_tenant_isolation:
  "topic_reach t st ts \<Longrightarrow> (i, r) \<in> set (tp_subscribers t) \<Longrightarrow>
   \<exists>s. st r = Some s \<and> sub_id s = i \<and> sub_tenant s = tp_tenant t"
  by (drule topic_reach_inv) (auto simp: topic_inv_def topic_wf_def)

theorem topic_tenant_isolation_witness:
  "\<exists>s. ex_st1 0 = Some s \<and> sub_id s = ''a'' \<and> sub_tenant s = tp_tenant ex_t1"
  using topic_tenant_isolation [OF ex_subscribed, of "''a''" 0] by simp

text \<open>
  C17. \<open>Publish\<close> on a well-formed topic whose subscribers are all open
  increments the counter, appends the message to the cache window, and leaves
  the store as the abstract fan-out: each subscriber of the snapshot receives
  the message once, the others are untouched.
\<close>

theorem topic_publish_refines:
  assumes wf: "topic_wf t st"
    and open_subs: "\<forall>r \<in> set (get_subscribers_snapshot t). \<exists>s. st r = Some s \<and> \<not> sub_closed s"
  shows "\<exists>c. topic_publish msg t st =
           Inr (t\<lparr>tp_messages_published := tp_messages_published t + 1, tp_cache := c\<rparr>,
                fan_out_spec st msg (set (get_subscribers_snapshot t)))
         \<and> rc_contents c = keep_last (nat (rc_size (tp_cache t))) (rc_contents (tp_cache t) @ [msg])"
proof -
  obtain c where beg: "topic_publish_begin msg t =
     Inr (t\<lparr>tp_messages_published := tp_messages_published t + 1, tp_cache := c\<rparr>, get_subscribers_snapshot t)"
    and cont: "rc_contents c = keep_last (nat (rc_size (tp_cache t))) (rc_contents (tp_cache t) @ [msg])"
    using topic_publish_begin_ok [OF wf] by blast
  have "fan_out st msg (get_subscribers_snapshot t) = Inr (fan_out_spec st msg (set (get_subscribers_snapshot t)))"
    using fan_out_eq [OF topic_wf_snapshot [OF wf]] open_subs by fastforce
  then show ?thesis using beg cont by (auto simp: topic_publish_def)
qed

theorem topic_publish_refines_witness:
  "\<exists>c. topic_publish ex_msg ex_t1 ex_st1 =
     Inr (ex_t1\<lparr>tp_messages_published := 1, tp_cache := c\<rparr>, fan_out_spec ex_st1 ex_msg {0})"
proof -
  have "\<forall>r \<in> set (get_subscribers_snapshot ex_t1). \<exists>s. ex_st1 r = Some s \<and> \<not> sub_closed s"
    by (simp add: get_subscribers_snapshot_def sub_start_def new_subscriber_def)
  from topic_publish_refines [OF ex_t1_wf this, of ex_msg] obtain c where
    "topic_publish ex_msg ex_t1 ex_st1 =
       Inr (ex_t1\<lparr>tp_messages_published := tp_messages_published ex_t1 + 1, tp_cache := c\<rparr>,
            fan_out_spec ex_st1 ex_msg (set (get_subscribers_snapshot ex_t1)))" by blast
  then have "topic_publish ex_msg ex_t1 ex_st1 =
     Inr (ex_t1\<lparr>tp_messages_published := 1, tp_cache := c\<rparr>, fan_out_spec ex_st1 ex_msg {0})"
    by (simp add: get_subscribers_snapshot_def new_topic_def new_recent_message_cache_def)
  then show ?thesis by blast
qed

text \<open>
  C18. \<open>Publish\<close> panics (send on closed channel) as soon as one subscriber of
  the map is closed: a subscriber closed by its own send loop, by its circuit
  breaker or by a ping failure stays in the map until the subscribe handler's
  \<open>Unsubscribe\<close>, and a publish in that window stops the process.
\<close>

theorem topic_publish_closed_member_panics:
  assumes "topic_wf t st" and "r \<in> set (get_subscribers_snapshot t)"
    and "st r = Some s" and "sub_closed s"
  shows "topic_publish msg t st = Inl SendOnClosedChannel"
proof -
  obtain c where beg: "topic_publish_begin msg t =
     Inr (t\<lparr>tp_messages_published := tp_messages_published t + 1, tp_cache := c\<rparr>, get_subscribers_snapshot t)"
    using topic_publish_begin_ok [OF assms(1)] by blast
  have "fan_out st msg (get_subscribers_snapshot t) = Inl SendOnClosedChannel"
    using fan_out_eq [OF topic_wf_snapshot [OF assms(1)]] assms(2-4) by auto
  then show ?thesis using beg assms(2) by (auto simp: topic_publish_def)
qed

theorem topic_publish_closed_member_panics_witness:
  "topic_publish ex_msg ex_t1 (Map.empty(0 \<mapsto> sub_close (sub_start ex_sub))) = Inl SendOnClosedChannel"
proof -
  have "topic_wf ex_t1 (Map.empty(0 \<mapsto> sub_close (sub_start ex_sub)))"
    by (simp add: topic_wf_def new_topic_def new_recent_message_cache_def new_subscriber_def
                  sub_start_def rc_wf_def)
  from topic_publish_closed_member_panics [OF this, of 0 "sub_close (sub_start ex_sub)"] show ?thesis
    by (simp add: get_subscribers_snapshot_def)
qed

text \<open>
  C19. The remove-then-close order of \<open>Unsubscribe\<close> does not prevent a
  fan-out to the removed subscriber: a publish whose snapshot was taken before
  the removal still has a delivery pending for it, and that delivery panics.
\<close>

theorem publish_unsubscribe_race:
  "\<exists>t st ts i r m. topic_reach t st ts \<and> i < length ts \<and> ts ! i = Deliver r m
     \<and> r \<notin> set (get_subscribers_snapshot t) \<and> store_send st r m = Inl SendOnClosedChannel"
proof -
  have "store_send (Map.empty(0 \<mapsto> sub_close (sub_start ex_sub))) 0 ex_msg = Inl SendOnClosedChannel"
    by (simp add: store_send_closed)
  with ex_unsubscribed show ?thesis
    by (intro exI [of _ "ex_t2\<lparr>tp_subscribers := []\<rparr>"] exI [of _ "Map.empty(0 \<mapsto> sub_close (sub_start ex_sub))"]
              exI [of _ "[CatchUp 0 None, Deliver 0 ex_msg]"] exI [of _ 1] exI [of _ 0] exI [of _ ex_msg])
       (simp add: get_subscribers_snapshot_def)
qed


text \<open>
  C21. \<open>sendRecentMessages\<close> enqueues exactly the last 50 messages of the cache
  window, oldest first, when the subscriber is open and its inbox has room.
\<close>

theorem send_recent_replays_window:
  assumes "rc_wf (tp_cache t)" and "st r = Some s" and "\<not> sub_closed s"
    and "int (length (sub_inbox s) + length (keep_last 50 (rc_contents (tp_cache t)))) \<le> sub_capacity s"
  shows "send_recent_messages t st r =
           Inr (st(r \<mapsto> s\<lparr>sub_received := sub_received s + length (keep_last 50 (rc_contents (tp_cache t))),
                           sub_inbox := sub_inbox s @ keep_last 50 (rc_contents (tp_cache t))\<rparr>))"
  using assms by (simp add: send_recent_messages_def rc_get_last_eq send_recent_room)

theorem send_recent_replays_window_witness:
  "send_recent_messages ex_t2 ex_st1 0 =
     Inr (Map.empty(0 \<mapsto> (sub_start ex_sub)\<lparr>sub_received := 1, sub_inbox := [ex_msg]\<rparr>))"
proof -
  have c: "rc_contents (tp_cache ex_t2) = [ex_msg]" and wf: "rc_wf (tp_cache ex_t2)"
    by (simp_all add: topic_publish_begin_def Let_def rc_add_def go_update_def go_rem_def new_topic_def
                      new_recent_message_cache_def rc_contents_def rc_slot_def rc_wf_def)
  have "ex_st1 0 = Some (sub_start ex_sub)" "\<not> sub_closed (sub_start ex_sub)"
    "int (length (sub_inbox (sub_start ex_sub)) + length (keep_last 50 (rc_contents (tp_cache ex_t2))))
       \<le> sub_capacity (sub_start ex_sub)"
    by (simp_all add: c sub_start_def new_subscriber_def keep_last_def)
  from send_recent_replays_window [where t = ex_t2 and st = ex_st1 and r = 0 and s = "sub_start ex_sub", OF wf this] c
  show ?thesis
    by (simp add: keep_last_def sub_start_def new_subscriber_def)
qed

text \<open>
  C22. \<open>Unsubscribe\<close> of an absent id returns \<open>SubscriberNotFound\<close>;
  of a present one it removes the entry, closes that subscriber, drops it from
  every later snapshot and decrements the subscriber count.
\<close>

theorem topic_unsubscribe_removes:
  assumes wf: "topic_wf t st"
  shows "(map_of (tp_subscribers t) i = None \<longrightarrow> topic_unsubscribe i t st = Inr (Inl (SubscriberNotFound i)))
       \<and> (\<forall>r. map_of (tp_subscribers t) i = Some r \<longrightarrow>
            (\<exists>t' st' s. topic_unsubscribe i t st = Inr (Inr (t', st')) \<and> st r = Some s
               \<and> st' r = Some (sub_close s) \<and> r \<notin> set (get_subscribers_snapshot t')
               \<and> get_subscriber_count t' + 1 = get_subscriber_count t))"
proof (intro conjI allI impI)
  show "map_of (tp_subscribers t) i = None \<Longrightarrow> topic_unsubscribe i t st = Inr (Inl (SubscriberNotFound i))"
    by (simp add: topic_unsubscribe_def)
next
  fix r assume r: "map_of (tp_subscribers t) i = Some r"
  obtain s where s: "st r = Some s"
    using wf map_of_SomeD [OF r] by (fastforce simp: topic_wf_def)
  have "Suc (length (AList.delete i (tp_subscribers t))) = length (tp_subscribers t)"
    using wf r by (simp add: topic_wf_def delete_length)
  then show "\<exists>t' st' s. topic_unsubscribe i t st = Inr (Inr (t', st')) \<and> st r = Some s
               \<and> st' r = Some (sub_close s) \<and> r \<notin> set (get_subscribers_snapshot t')
               \<and> get_subscriber_count t' + 1 = get_subscriber_count t"
    using r s snapshot_delete [OF wf r]
    by (simp add: topic_unsubscribe_def with_sub_def get_subscribers_snapshot_def get_subscriber_count_def)
qed

theorem topic_unsubscribe_removes_witness:
  "\<exists>t' st'. topic_unsubscribe ''a'' ex_t1 ex_st1 = Inr (Inr (t', st'))
     \<and> st' 0 = Some (sub_close (sub_start ex_sub)) \<and> get_subscriber_count t' = 0"
proof -
  have "map_of (tp_subscribers ex_t1) ''a'' = Some 0" by simp
  with topic_unsubscribe_removes [OF ex_t1_wf, of "''a''"] show ?thesis
    by (auto simp: get_subscriber_count_def)
qed

end
