(* ===== verification/TopicManager.thy ===== *)
theory TopicManager
  imports Topic BufferManager Throttler
begin

text \<open>
  The topic registry of \<open>src/internal/core/topic.go\<close> (its second part,
  \<open>TopicManager\<close>): the map from the key \<open>"tenant:name"\<close> to topics, the
  references to the buffer manager and the throttler, the shutdown channel and
  \<open>sync.Once\<close>, and the background loop feeding the throttler. A topic is
  identified by its key: the registry never deletes a topic, so the key stands
  for the \<open>*Topic\<close> the Go code passes around. Subscribers are in the store of
  \<open>Topic\<close>. The double-checked locking of \<open>getOrCreateTopic\<close> gives the
  same result as one atomic probe-and-insert, which is what the model does.
\<close>

record topic_manager =
  tm_buffer :: buffer_manager
  tm_throttler :: throttler
  tm_topics :: "(string \<times> topic) list"
  tm_shut_down :: bool
  tm_monitor_running :: bool

text \<open>\<open>NewTopicManager\<close> starts \<open>monitoLoop\<close>.\<close>

definition new_topic_manager :: "buffer_manager \<Rightarrow> throttler \<Rightarrow> topic_manager" where
  "new_topic_manager bm th =
     \<lparr>tm_buffer = bm, tm_throttler = th, tm_topics = [], tm_shut_down = False,
      tm_monitor_running = True\<rparr>"

definition make_topic_key :: "string \<Rightarrow> string \<Rightarrow> string" where
  "make_topic_key tenant_id topic_name = tenant_id @ '':'' @ topic_name"

text \<open>\<open>getOrCreateTopic\<close>: the key and the topic it names, created with a cache of 100.\<close>

definition get_or_create_topic ::
  "string \<Rightarrow> string \<Rightarrow> time_ns \<Rightarrow> topic_manager \<Rightarrow> (topic_manager \<times> string \<times> topic) go_result" where
  "get_or_create_topic tenant_id topic_name now tm =
     (let key = make_topic_key tenant_id topic_name in
      case map_of (tm_topics tm) key of
        Some t \<Rightarrow> Inr (tm, key, t)
      | None \<Rightarrow> go_bind (new_topic topic_name tenant_id 100 now) (\<lambda>t.
                  Inr (tm\<lparr>tm_topics := AList.update key t (tm_topics tm)\<rparr>, key, t)))"

definition set_topic :: "string \<Rightarrow> topic \<Rightarrow> topic_manager \<Rightarrow> topic_manager" where
  "set_topic key t tm = tm\<lparr>tm_topics := AList.update key t (tm_topics tm)\<rparr>"

text \<open>\<open>Publish\<close>: get or create the topic, then \<open>Topic.Publish\<close> (which never returns an error).\<close>

definition tm_publish ::
  "string \<Rightarrow> string \<Rightarrow> message \<Rightarrow> time_ns \<Rightarrow> topic_manager \<Rightarrow> sub_store \<Rightarrow> (topic_manager \<times> sub_store) go_result" where
  "tm_publish tenant_id topic_name msg now tm st =
     go_bind (get_or_create_topic tenant_id topic_name now tm) (\<lambda>(tm1, key, t).
       go_bind (topic_publish msg t st) (\<lambda>(t', st'). Inr (set_topic key t' tm1, st')))"

text \<open>
  \<open>Subscribe\<close>: the manager's own tenant check, get or create, then
  \<open>AddNewSubscriber\<close> before \<open>Topic.Subscribe\<close>. The returned error comes
  with the state, since an error of \<open>Topic.Subscribe\<close> does not undo the
  buffer manager's count. The subscriber id argument is not used by the code.
\<close>

definition tm_subscribe ::
  "string \<Rightarrow> string \<Rightarrow> string \<Rightarrow> sub_ref \<Rightarrow> time_ns \<Rightarrow> topic_manager \<Rightarrow> sub_store \<Rightarrow>
   (topic_manager \<times> sub_store \<times> topic_error option) go_result" where
  "tm_subscribe tenant_id topic_name subscriber_id r now tm st =
     with_sub st r (\<lambda>s.
       if sub_tenant s \<noteq> tenant_id then Inr (tm, st, Some TenantMismatch)
       else go_bind (get_or_create_topic tenant_id topic_name now tm) (\<lambda>(tm1, key, t).
         let tm2 = tm1\<lparr>tm_buffer := add_new_subscriber (tm_buffer tm1)\<rparr> in
         go_bind (topic_subscribe r t st) (\<lambda>res.
           case res of
             Inl e \<Rightarrow> Inr (tm2, st, Some e)
           | Inr (t', st') \<Rightarrow> Inr (set_topic key t' tm2, st', None))))"

definition tm_unsubscribe ::
  "string \<Rightarrow> string \<Rightarrow> string \<Rightarrow> topic_manager \<Rightarrow> sub_store \<Rightarrow>
   (topic_manager \<times> sub_store \<times> topic_error option) go_result" where
  "tm_unsubscribe tenant_id topic_name subscriber_id tm st =
     (let key = make_topic_key tenant_id topic_name in
      case map_of (tm_topics tm) key of
        None \<Rightarrow> Inr (tm, st, Some (TopicNotFound key))
      | Some t \<Rightarrow>
          go_bind (topic_unsubscribe subscriber_id t st) (\<lambda>res.
            case res of
              Inl e \<Rightarrow> Inr (tm, st, Some e)
            | Inr (t', st') \<Rightarrow>
                Inr ((set_topic key t' tm)\<lparr>tm_buffer := on_subscriber_removal (tm_buffer tm)\<rparr>, st', None)))"

definition tm_get_topic :: "string \<Rightarrow> string \<Rightarrow> topic_manager \<Rightarrow> topic_error + topic" where
  "tm_get_topic tenant_id topic_name tm =
     (let key = make_topic_key tenant_id topic_name in
      case map_of (tm_topics tm) key of None \<Rightarrow> Inl (TopicNotFound key) | Some t \<Rightarrow> Inr t)"

definition tm_get_all_topics :: "topic_manager \<Rightarrow> topic list" where
  "tm_get_all_topics tm = map snd (tm_topics tm)"

definition tm_get_topic_count :: "topic_manager \<Rightarrow> nat" where
  "tm_get_topic_count tm = length (tm_topics tm)"

definition tm_get_total_subscriber_count :: "topic_manager \<Rightarrow> nat" where
  "tm_get_total_subscriber_count tm = sum_list (map (\<lambda>(k, t). get_subscriber_count t) (tm_topics tm))"

fun sum_slow :: "sub_store \<Rightarrow> (string \<times> topic) list \<Rightarrow> nat go_result" where
  "sum_slow st [] = Inr 0"
| "sum_slow st ((k, t) # ts) =
     go_bind (get_slow_subscriber_count st t) (\<lambda>n. go_bind (sum_slow st ts) (\<lambda>m. Inr (n + m)))"

definition tm_get_slow_subscriber_count :: "sub_store \<Rightarrow> topic_manager \<Rightarrow> nat go_result" where
  "tm_get_slow_subscriber_count st tm = sum_slow st (tm_topics tm)"

text \<open>
  \<open>monitoLoop\<close>: a tick pushes the two counts into the throttler (the total is
  read first); the loop ends once it sees the shutdown channel closed. Both
  cases may be ready at once, and Go's \<open>select\<close> then picks either.
\<close>

datatype monitor_event = MonitorTick | MonitorShutdown

definition monitor_step ::
  "monitor_event \<Rightarrow> sub_store \<Rightarrow> topic_manager \<Rightarrow> topic_manager go_result option" where
  "monitor_step ev st tm =
     (if \<not> tm_monitor_running tm then None
      else case ev of
        MonitorTick \<Rightarrow>
          Some (let total = tm_get_total_subscriber_count tm in
                go_bind (tm_get_slow_subscriber_count st tm) (\<lambda>slow.
                  Inr (tm\<lparr>tm_throttler := update_subscriber (int slow) (int total) (tm_throttler tm)\<rparr>)))
      | MonitorShutdown \<Rightarrow>
          (if tm_shut_down tm then Some (Inr (tm\<lparr>tm_monitor_running := False\<rparr>)) else None))"

fun topic_metrics_all :: "(string \<times> topic) list \<Rightarrow> (string \<times> string \<times> int \<times> nat \<times> int \<times> time_ns) list" where
  "topic_metrics_all [] = []"
| "topic_metrics_all ((k, t) # ts) = topic_get_metrics t # topic_metrics_all ts"

definition tm_get_metrics ::
  "sub_store \<Rightarrow> topic_manager \<Rightarrow>
   (nat \<times> nat \<times> nat \<times> (string \<times> string \<times> int \<times> nat \<times> int \<times> time_ns) list
    \<times> (bool \<times> int \<times> int \<times> nat \<times> nat)) go_result" where
  "tm_get_metrics st tm =
     go_bind (tm_get_slow_subscriber_count st tm) (\<lambda>slow.
       Inr (length (tm_topics tm), tm_get_total_subscriber_count tm, slow,
            topic_metrics_all (tm_topics tm), th_get_metrics (tm_throttler tm)))"

text \<open>
  \<open>ShutDown\<close>: once only, close the shutdown channel and \<open>Close\<close> every
  subscriber of every topic (the subscribers stay in the maps).
\<close>

fun close_all :: "sub_store \<Rightarrow> sub_ref list \<Rightarrow> sub_store go_result" where
  "close_all st [] = Inr st"
| "close_all st (r # rs) = with_sub st r (\<lambda>s. close_all (st(r \<mapsto> sub_close s)) rs)"

definition tm_all_subscribers :: "topic_manager \<Rightarrow> sub_ref list" where
  "tm_all_subscribers tm = concat (map (\<lambda>(k, t). get_subscribers_snapshot t) (tm_topics tm))"

definition tm_shutdown :: "topic_manager \<Rightarrow> sub_store \<Rightarrow> (topic_manager \<times> sub_store) go_result" where
  "tm_shutdown tm st =
     (if tm_shut_down tm then Inr (tm, st)
      else go_bind (close_all st (tm_all_subscribers tm)) (\<lambda>st'. Inr (tm\<lparr>tm_shut_down := True\<rparr>, st')))"

subsection \<open>Invariants of the registry\<close>

text \<open>
  A topic is \<open>T\<close>-consistent when its tenant is one the request context
  can carry and every message of its cache was published by that tenant.
\<close>

definition topic_msgs_ok :: "string set \<Rightarrow> topic \<Rightarrow> bool" where
  "topic_msgs_ok T t \<longleftrightarrow> tp_tenant t \<in> T \<and> (\<forall>m \<in> set (rc_contents (tp_cache t)). msg_tenant m = tp_tenant t)"

text \<open>
  The registry is well formed when its keys are distinct, each key is
  \<open>makeTopicKey\<close> of its topic's tenant and name, and each topic is well
  formed over the shared store (\<open>topic_wf\<close> of \<open>Topic\<close>).
\<close>

definition tm_wf :: "string set \<Rightarrow> topic_manager \<Rightarrow> sub_store \<Rightarrow> bool" where
  "tm_wf T tm st \<longleftrightarrow> distinct (map fst (tm_topics tm))
     \<and> (\<forall>(k, t) \<in> set (tm_topics tm). k = make_topic_key (tp_tenant t) (tp_name t) \<and> topic_wf t st
            \<and> topic_msgs_ok T t)"

text \<open>Every message in a subscriber's channel or frame queue has the subscriber's tenant.\<close>

definition store_msgs_ok :: "sub_store \<Rightarrow> bool" where
  "store_msgs_ok st \<longleftrightarrow>
     (\<forall>r s. st r = Some s \<longrightarrow> (\<forall>m \<in> set (sub_inbox s) \<union> set (sub_frames s). msg_tenant m = sub_tenant s))"

text \<open>No topic is ever removed, and a topic keeps its tenant.\<close>

definition topics_kept :: "topic_manager \<Rightarrow> topic_manager \<Rightarrow> bool" where
  "topics_kept tm tm' \<longleftrightarrow>
     (\<forall>k t. map_of (tm_topics tm) k = Some t \<longrightarrow> (\<exists>t'. map_of (tm_topics tm') k = Some t' \<and> tp_tenant t' = tp_tenant t))"


text \<open>A registry with no topic, and one holding the example topic of \<open>Topic\<close>, for concrete runs.\<close>

abbreviation ex_tm0 :: topic_manager where
  "ex_tm0 \<equiv> new_topic_manager (bm_start (new_adaptive_buffer_manager 1000000)) (new_adaptive_throttler default_config 0)"

abbreviation ex_tm1 :: topic_manager where
  "ex_tm1 \<equiv> ex_tm0\<lparr>tm_topics := [(''acme:orders'', ex_t1)]\<rparr>"

subsection \<open>Lemmas\<close>

lemma takeWhile_key:
  "CHR '':'' \<notin> set tenant \<Longrightarrow> takeWhile (\<lambda>c. c \<noteq> CHR '':'') (make_topic_key tenant name) = tenant"
  by (induction tenant) (auto simp: make_topic_key_def)

lemma dropWhile_key:
  "CHR '':'' \<notin> set tenant \<Longrightarrow> dropWhile (\<lambda>c. c \<noteq> CHR '':'') (make_topic_key tenant name) = CHR '':'' # name"
  by (induction tenant) (auto simp: make_topic_key_def)

text \<open>
  C26. \<open>makeTopicKey\<close> is injective on tenants that contain no colon: two
  topics of such tenants share a registry key only when tenant and name are
  equal. (With a colon the key collides, see \<open>make_topic_key_collision\<close>.)
\<close>

theorem make_topic_key_injective:
  assumes "CHR '':'' \<notin> set tenant1" and "CHR '':'' \<notin> set tenant2"
    and "make_topic_key tenant1 name1 = make_topic_key tenant2 name2"
  shows "tenant1 = tenant2 \<and> name1 = name2"
  using takeWhile_key [OF assms(1), of name1] takeWhile_key [OF assms(2), of name2]
        dropWhile_key [OF assms(1), of name1] dropWhile_key [OF assms(2), of name2] assms(3)
  by simp

lemma make_topic_key_collision:
  "make_topic_key ''a:b'' ''c'' = make_topic_key ''a'' ''b:c''"
  by (simp add: make_topic_key_def)

lemma map_of_update_self [simp]: "map_of (AList.update k v al) k = Some v"
  by (simp add: update_conv')

lemma get_or_create_topic_ok:
  "\<exists>tm' t. get_or_create_topic tenant name now tm = Inr (tm', make_topic_key tenant name, t)
     \<and> map_of (tm_topics tm') (make_topic_key tenant name) = Some t"
  by (auto simp: get_or_create_topic_def new_topic_def new_recent_message_cache_def Let_def
           split: option.splits)

lemma set_update_sub2: "set (AList.update k v al) \<subseteq> insert (k, v) (set al)"
  by (induction al) auto

lemma tm_wf_update:
  assumes wf: "tm_wf T tm st" and t': "topic_wf t' st" "topic_msgs_ok T t'"
    and key: "key = make_topic_key (tp_tenant t') (tp_name t')"
  shows "tm_wf T (tm\<lparr>tm_topics := AList.update key t' (tm_topics tm)\<rparr>) st"
proof -
  have old: "\<forall>(k, u) \<in> set (tm_topics tm). k = make_topic_key (tp_tenant u) (tp_name u) \<and> topic_wf u st
               \<and> topic_msgs_ok T u"
    and d: "distinct (map fst (tm_topics tm))"
    using wf by (simp_all add: tm_wf_def)
  have new: "k = make_topic_key (tp_tenant u) (tp_name u) \<and> topic_wf u st \<and> topic_msgs_ok T u"
    if "(k, u) \<in> set (AList.update key t' (tm_topics tm))" for k u
  proof -
    from that have "(k, u) = (key, t') \<or> (k, u) \<in> set (tm_topics tm)"
      using set_update_sub2 [of key t' "tm_topics tm"] by blast
    then show ?thesis
    proof
      assume "(k, u) = (key, t')"
      then show ?thesis using t' key by simp
    next
      assume "(k, u) \<in> set (tm_topics tm)"
      then show ?thesis using old by blast
    qed
  qed
  have "distinct (map fst (AList.update key t' (tm_topics tm)))" using d by (rule distinct_update)
  then show ?thesis using new unfolding tm_wf_def by auto
qed

lemma tm_wf_set_topic:
  assumes wf: "tm_wf T tm st" and old: "map_of (tm_topics tm) key = Some t"
    and t': "topic_wf t' st" "topic_msgs_ok T t'" "tp_tenant t' = tp_tenant t" "tp_name t' = tp_name t"
  shows "tm_wf T (set_topic key t' tm) st"
proof -
  have "(key, t) \<in> set (tm_topics tm)" using old by (rule map_of_SomeD)
  then have "key = make_topic_key (tp_tenant t') (tp_name t')" using wf t' by (auto simp: tm_wf_def)
  with wf t'(1,2) show ?thesis unfolding set_topic_def by (rule tm_wf_update)
qed

lemma tm_wf_keeps: "tm_wf T tm st \<Longrightarrow> store_keeps st st' \<Longrightarrow> tm_wf T tm st'"
  unfolding tm_wf_def by (blast intro: topic_wf_keeps)

lemma new_topic_100:
  "new_topic name tenant 100 now = Inr t \<Longrightarrow>
   tp_tenant t = tenant \<and> tp_name t = name \<and> tp_subscribers t = [] \<and> rc_contents (tp_cache t) = []
   \<and> rc_wf (tp_cache t)"
  using new_cache_wf [of 100] by (auto simp: new_topic_def)

lemma get_or_create_cases:
  "get_or_create_topic tenant name now tm = Inr (tm', key, t) \<Longrightarrow>
   key = make_topic_key tenant name \<and>
   (map_of (tm_topics tm) key = Some t \<and> tm' = tm
    \<or> map_of (tm_topics tm) key = None \<and> new_topic name tenant 100 now = Inr t
       \<and> tm' = tm\<lparr>tm_topics := AList.update key t (tm_topics tm)\<rparr>)"
  by (cases "map_of (tm_topics tm) (make_topic_key tenant name)";
      cases "new_topic name tenant 100 now")
     (auto simp: get_or_create_topic_def Let_def)

lemma tm_wf_get_or_create:
  assumes wf: "tm_wf T tm st" and ten: "tenant \<in> T"
    and goc: "get_or_create_topic tenant name now tm = Inr (tm', key, t)"
  shows "tm_wf T tm' st \<and> key = make_topic_key tenant name \<and> map_of (tm_topics tm') key = Some t
     \<and> (tm' = tm \<or> (map_of (tm_topics tm) key = None
          \<and> tm' = tm\<lparr>tm_topics := AList.update key t (tm_topics tm)\<rparr>
          \<and> tp_tenant t = tenant \<and> tp_name t = name \<and> tp_subscribers t = [] \<and> rc_contents (tp_cache t) = []))"
  using get_or_create_cases [OF goc]
proof (elim conjE disjE)
  assume "key = make_topic_key tenant name" "map_of (tm_topics tm) key = Some t" "tm' = tm"
  then show ?thesis using wf by simp
next
  assume key: "key = make_topic_key tenant name" and none: "map_of (tm_topics tm) key = None"
    and nt: "new_topic name tenant 100 now = Inr t"
    and eq: "tm' = tm\<lparr>tm_topics := AList.update key t (tm_topics tm)\<rparr>"
  have t: "tp_tenant t = tenant" "tp_name t = name" "tp_subscribers t = []" "rc_contents (tp_cache t) = []"
    "rc_wf (tp_cache t)"
    using new_topic_100 [OF nt] by simp_all
  have "topic_wf t st" "topic_msgs_ok T t" using t ten by (simp_all add: topic_wf_def topic_msgs_ok_def)
  then have "tm_wf T tm' st" unfolding eq using wf key t by (intro tm_wf_update) simp_all
  then show ?thesis using eq t none key by simp
qed

lemma total_update_old:
  "distinct (map fst al) \<Longrightarrow> map_of al k = Some t \<Longrightarrow>
   sum_list (map (\<lambda>(k, t). get_subscriber_count t) (AList.update k t' al)) + get_subscriber_count t
   = sum_list (map (\<lambda>(k, t). get_subscriber_count t) al) + get_subscriber_count t'"
  by (induction al) (auto split: if_splits)

lemma total_update_new:
  "map_of al k = None \<Longrightarrow>
   sum_list (map (\<lambda>(k, t). get_subscriber_count t) (AList.update k t' al))
   = sum_list (map (\<lambda>(k, t). get_subscriber_count t) al) + get_subscriber_count t'"
  by (induction al) (auto split: if_splits)

lemma tm_total_set_topic:
  "distinct (map fst (tm_topics tm)) \<Longrightarrow> map_of (tm_topics tm) k = Some t \<Longrightarrow>
   tm_get_total_subscriber_count (set_topic k t' tm) + get_subscriber_count t
   = tm_get_total_subscriber_count tm + get_subscriber_count t'"
  by (simp add: tm_get_total_subscriber_count_def set_topic_def total_update_old)

lemma tm_total_get_or_create:
  "tm_wf T tm st \<Longrightarrow> tenant \<in> T \<Longrightarrow> get_or_create_topic tenant name now tm = Inr (tm', key, t) \<Longrightarrow>
   tm_get_total_subscriber_count tm' = tm_get_total_subscriber_count tm"
proof -
  assume wf: "tm_wf T tm st" and ten: "tenant \<in> T"
    and goc: "get_or_create_topic tenant name now tm = Inr (tm', key, t)"
  from tm_wf_get_or_create [OF wf ten goc]
  have "tm' = tm \<or> (map_of (tm_topics tm) key = None \<and> tm' = tm\<lparr>tm_topics := AList.update key t (tm_topics tm)\<rparr>
      \<and> tp_tenant t = tenant \<and> tp_name t = name \<and> tp_subscribers t = [] \<and> rc_contents (tp_cache t) = [])"
    by blast
  then show ?thesis
  proof
    assume "tm' = tm" then show ?thesis by simp
  next
    assume "map_of (tm_topics tm) key = None \<and> tm' = tm\<lparr>tm_topics := AList.update key t (tm_topics tm)\<rparr>
      \<and> tp_tenant t = tenant \<and> tp_name t = name \<and> tp_subscribers t = [] \<and> rc_contents (tp_cache t) = []"
    then show ?thesis
      by (simp add: tm_get_total_subscriber_count_def total_update_new) (simp add: get_subscriber_count_def)
  qed
qed

lemma make_topic_key_inj:
  "CHR '':'' \<notin> set tenant1 \<Longrightarrow> CHR '':'' \<notin> set tenant2 \<Longrightarrow>
   make_topic_key tenant1 name1 = make_topic_key tenant2 name2 \<Longrightarrow> tenant1 = tenant2 \<and> name1 = name2"
  using takeWhile_key [of tenant1 name1] takeWhile_key [of tenant2 name2]
        dropWhile_key [of tenant1 name1] dropWhile_key [of tenant2 name2]
  by (metis list.inject)

lemma tm_wf_lookup_tenant:
  assumes "tm_wf T tm st" and "map_of (tm_topics tm) (make_topic_key tenant name) = Some t"
    and "\<forall>x \<in> T. CHR '':'' \<notin> set x" and "tenant \<in> T"
  shows "tp_tenant t = tenant \<and> tp_name t = name"
proof -
  have "(make_topic_key tenant name, t) \<in> set (tm_topics tm)" using assms(2) by (rule map_of_SomeD)
  then have "make_topic_key tenant name = make_topic_key (tp_tenant t) (tp_name t)" "tp_tenant t \<in> T"
    using assms(1) by (auto simp: tm_wf_def topic_msgs_ok_def)
  then show ?thesis using make_topic_key_inj assms(3,4) by metis
qed



lemma handle_back_pressure_msgs:
  "handle_back_pressure s m = (s', e) \<Longrightarrow>
   set (sub_inbox s') \<union> set (sub_frames s') \<subseteq> insert m (set (sub_inbox s) \<union> set (sub_frames s))"
  by (auto simp: handle_back_pressure_def sub_close_def Let_def
           split: drop_strategy.splits list.splits if_splits)

lemma send_messages_msgs:
  "send_messages s m = Inr (s', e) \<Longrightarrow>
   set (sub_inbox s') \<union> set (sub_frames s') \<subseteq> insert m (set (sub_inbox s) \<union> set (sub_frames s))"
  by (auto simp: send_messages_def Let_def split: if_splits dest!: handle_back_pressure_msgs)

lemma send_loop_step_msgs:
  "send_loop_step now ev s = Some (s', out) \<Longrightarrow>
   set (sub_inbox s') \<union> set (sub_frames s') \<subseteq> set (sub_inbox s) \<union> set (sub_frames s)"
  by (auto simp: send_loop_step_def loop_exit_def sub_close_def Let_def
           split: loop_event.splits list.splits if_splits)

lemma store_msgs_ok_upd:
  "store_msgs_ok st \<Longrightarrow> st r = Some s \<Longrightarrow> sub_tenant s' = sub_tenant s \<Longrightarrow>
   set (sub_inbox s') \<union> set (sub_frames s') \<subseteq> insert m (set (sub_inbox s) \<union> set (sub_frames s)) \<Longrightarrow>
   msg_tenant m = sub_tenant s \<Longrightarrow> store_msgs_ok (st(r \<mapsto> s'))"
proof -
  assume ok: "store_msgs_ok st" and s: "st r = Some s" and ten: "sub_tenant s' = sub_tenant s"
    and sub: "set (sub_inbox s') \<union> set (sub_frames s') \<subseteq> insert m (set (sub_inbox s) \<union> set (sub_frames s))"
    and mt: "msg_tenant m = sub_tenant s"
  show ?thesis unfolding store_msgs_ok_def
  proof (intro allI impI ballI)
    fix r' s'' m' assume at: "(st(r \<mapsto> s')) r' = Some s''" and m': "m' \<in> set (sub_inbox s'') \<union> set (sub_frames s'')"
    show "msg_tenant m' = sub_tenant s''"
    proof (cases "r' = r")
      case True
      then have "s'' = s'" using at by simp
      then have "m' = m \<or> m' \<in> set (sub_inbox s) \<union> set (sub_frames s)" using m' sub by blast
      then show ?thesis using ok s mt ten \<open>s'' = s'\<close> unfolding store_msgs_ok_def by auto
    next
      case False
      then show ?thesis using ok at m' unfolding store_msgs_ok_def by auto
    qed
  qed
qed

lemma store_send_msgs_ok:
  assumes "store_msgs_ok st" and "store_send st r m = Inr (st', e)"
    and "\<forall>s. st r = Some s \<longrightarrow> sub_tenant s = msg_tenant m"
  shows "store_msgs_ok st'"
proof -
  obtain s s' where s: "st r = Some s" and send: "send_messages s m = Inr (s', e)" and st': "st' = st(r \<mapsto> s')"
    using assms(2) by (auto simp: store_send_def with_sub_def split: option.splits)
  show ?thesis unfolding st'
    using assms(1) s send_messages_ids [OF send] send_messages_msgs [OF send] assms(3)
    by (intro store_msgs_ok_upd) auto
qed

lemma store_send_tenant_back:
  "store_send st r m = Inr (st', e) \<Longrightarrow> st' r' = Some s' \<Longrightarrow> \<exists>s. st r' = Some s \<and> sub_tenant s' = sub_tenant s"
proof -
  assume send: "store_send st r m = Inr (st', e)" and at: "st' r' = Some s'"
  obtain s s1 where s: "st r = Some s" and sm: "send_messages s m = Inr (s1, e)" and st': "st' = st(r \<mapsto> s1)"
    using send by (auto simp: store_send_def with_sub_def split: option.splits)
  show ?thesis
  proof (cases "r' = r")
    case True
    then show ?thesis using at s st' send_messages_ids [OF sm] by auto
  next
    case False
    then show ?thesis using at st' by auto
  qed
qed

lemma fan_out_Cons_Inr:
  assumes that: "fan_out st m (r # rs) = Inr st'"
  shows "\<exists>st1 e. store_send st r m = Inr (st1, e) \<and> fan_out st1 m rs = Inr st'"
proof (cases "store_send st r m")
  case (Inl e)
  then show ?thesis using that by simp
next
  case (Inr p)
  then show ?thesis using that by (cases p) simp
qed

lemma fan_out_msgs_ok:
  "fan_out st m rs = Inr st' \<Longrightarrow> store_msgs_ok st \<Longrightarrow>
   \<forall>r \<in> set rs. \<forall>s. st r = Some s \<longrightarrow> sub_tenant s = msg_tenant m \<Longrightarrow> store_msgs_ok st'"
proof (induction rs arbitrary: st)
  case Nil
  then show ?case by simp
next
  case (Cons r rs)
  obtain st1 e where send: "store_send st r m = Inr (st1, e)" and rest: "fan_out st1 m rs = Inr st'"
    using fan_out_Cons_Inr [OF Cons.prems(1)] by blast
  have "\<forall>s. st r = Some s \<longrightarrow> sub_tenant s = msg_tenant m" using Cons.prems(3) by simp
  then have ok1: "store_msgs_ok st1" by (rule store_send_msgs_ok [OF Cons.prems(2) send])
  have ten1: "\<forall>r' \<in> set rs. \<forall>s. st1 r' = Some s \<longrightarrow> sub_tenant s = msg_tenant m"
  proof (intro ballI allI impI)
    fix r' s assume r': "r' \<in> set rs" and at: "st1 r' = Some s"
    obtain s0 where "st r' = Some s0" "sub_tenant s = sub_tenant s0"
      using store_send_tenant_back [OF send at] by blast
    then show "sub_tenant s = msg_tenant m" using Cons.prems(3) r' by simp
  qed
  show ?case by (rule Cons.IH [OF rest ok1 ten1])
qed

lemma topic_publish_Inr:
  assumes pub: "topic_publish msg t st = Inr (t', st')"
  shows "\<exists>rs. topic_publish_begin msg t = Inr (t', rs) \<and> fan_out st msg rs = Inr st'"
proof (cases "topic_publish_begin msg t")
  case (Inl e)
  then show ?thesis using pub by (simp add: topic_publish_def)
next
  case (Inr p)
  obtain t1 rs where p: "p = (t1, rs)" by (cases p)
  show ?thesis
  proof (cases "rs = []")
    case True
    then show ?thesis using pub Inr p by (simp add: topic_publish_def)
  next
    case False
    then show ?thesis using pub Inr p
      by (cases "fan_out st msg rs") (simp_all add: topic_publish_def)
  qed
qed

lemma topics_kept_refl [simp]: "topics_kept tm tm"
  by (auto simp: topics_kept_def)

lemma topics_kept_trans: "topics_kept tm1 tm2 \<Longrightarrow> topics_kept tm2 tm3 \<Longrightarrow> topics_kept tm1 tm3"
  unfolding topics_kept_def by fastforce

lemma topics_kept_fields [simp]:
  "topics_kept tm (tm'\<lparr>tm_buffer := b\<rparr>) = topics_kept tm tm'"
  "topics_kept tm (tm'\<lparr>tm_throttler := th\<rparr>) = topics_kept tm tm'"
  "topics_kept tm (tm'\<lparr>tm_shut_down := x\<rparr>) = topics_kept tm tm'"
  "topics_kept tm (tm'\<lparr>tm_monitor_running := y\<rparr>) = topics_kept tm tm'"
  "topics_kept (tm\<lparr>tm_buffer := b\<rparr>) tm' = topics_kept tm tm'"
  by (simp_all add: topics_kept_def)

lemma topics_kept_get_or_create:
  "get_or_create_topic tenant name now tm = Inr (tm', key, t) \<Longrightarrow> topics_kept tm tm'"
  by (drule get_or_create_cases) (auto simp: topics_kept_def update_conv')

lemma topics_kept_set_topic:
  "map_of (tm_topics tm) key = Some t \<Longrightarrow> tp_tenant t' = tp_tenant t \<Longrightarrow> topics_kept tm (set_topic key t' tm)"
  by (auto simp: topics_kept_def set_topic_def update_conv')

lemma length_update_new:
  "k \<notin> fst ` set al \<Longrightarrow> length (AList.update k v al) = Suc (length al)"
  by (induction al) auto

lemma tm_wf_fields [simp]:
  "tm_wf T (tm\<lparr>tm_buffer := b\<rparr>) st = tm_wf T tm st"
  "tm_wf T (tm\<lparr>tm_throttler := th\<rparr>) st = tm_wf T tm st"
  "tm_wf T (tm\<lparr>tm_shut_down := x\<rparr>) st = tm_wf T tm st"
  "tm_wf T (tm\<lparr>tm_monitor_running := y\<rparr>) st = tm_wf T tm st"
  by (simp_all add: tm_wf_def)

lemma tm_total_fields [simp]:
  "tm_get_total_subscriber_count (tm\<lparr>tm_buffer := b\<rparr>) = tm_get_total_subscriber_count tm"
  "tm_get_total_subscriber_count (tm\<lparr>tm_throttler := th\<rparr>) = tm_get_total_subscriber_count tm"
  "tm_get_total_subscriber_count (tm\<lparr>tm_shut_down := x\<rparr>) = tm_get_total_subscriber_count tm"
  "tm_get_total_subscriber_count (tm\<lparr>tm_monitor_running := y\<rparr>) = tm_get_total_subscriber_count tm"
  by (simp_all add: tm_get_total_subscriber_count_def)

lemma tm_wf_topic:
  "tm_wf T tm st \<Longrightarrow> map_of (tm_topics tm) k = Some t \<Longrightarrow>
   k = make_topic_key (tp_tenant t) (tp_name t) \<and> topic_wf t st \<and> topic_msgs_ok T t"
  by (drule map_of_SomeD) (auto simp: tm_wf_def)

lemma tm_subscribe_fresh:
  assumes wf: "tm_wf T tm st" and colon: "\<forall>x \<in> T. CHR '':'' \<notin> set x" and ten: "tenant \<in> T"
    and s: "st r = Some s" and sten: "sub_tenant s = tenant"
    and fresh: "\<forall>(k, t) \<in> set (tm_topics tm). sub_id s \<notin> fst ` set (tp_subscribers t)"
  shows "\<exists>tm'. tm_subscribe tenant name sid r now tm st = Inr (tm', st(r \<mapsto> sub_start s), None)
     \<and> tm_wf T tm' (st(r \<mapsto> sub_start s))
     \<and> tm_get_total_subscriber_count tm' = Suc (tm_get_total_subscriber_count tm)
     \<and> tm_buffer tm' = add_new_subscriber (tm_buffer tm) \<and> tm_throttler tm' = tm_throttler tm
     \<and> tm_shut_down tm' = tm_shut_down tm \<and> tm_monitor_running tm' = tm_monitor_running tm
     \<and> topics_kept tm tm'
     \<and> (\<exists>t. map_of (tm_topics tm') (make_topic_key tenant name) = Some t \<and> tp_tenant t = tenant
            \<and> map_of (tp_subscribers t) (sub_id s) = Some r)"
proof -
  obtain tm1 key t where goc: "get_or_create_topic tenant name now tm = Inr (tm1, key, t)"
    using get_or_create_topic_ok by blast
  have g: "tm_wf T tm1 st" "key = make_topic_key tenant name" "map_of (tm_topics tm1) key = Some t"
    "tm1 = tm \<or> (map_of (tm_topics tm) key = None \<and> tm1 = tm\<lparr>tm_topics := AList.update key t (tm_topics tm)\<rparr>
       \<and> tp_tenant t = tenant \<and> tp_name t = name \<and> tp_subscribers t = [] \<and> rc_contents (tp_cache t) = [])"
    using tm_wf_get_or_create [OF wf ten goc] by blast+
  have tt: "tp_tenant t = tenant" using tm_wf_lookup_tenant [OF g(1) _ colon ten] g(2,3) by blast
  have twf: "topic_wf t st" "topic_msgs_ok T t" using tm_wf_topic [OF g(1) g(3)] by simp_all
  have fr: "sub_id s \<notin> fst ` set (tp_subscribers t)"
    using g(4)
  proof
    assume "tm1 = tm"
    then have "(key, t) \<in> set (tm_topics tm)" using g(3) by (simp add: map_of_SomeD)
    then show ?thesis using fresh by blast
  next
    assume "map_of (tm_topics tm) key = None \<and> tm1 = tm\<lparr>tm_topics := AList.update key t (tm_topics tm)\<rparr>
       \<and> tp_tenant t = tenant \<and> tp_name t = name \<and> tp_subscribers t = [] \<and> rc_contents (tp_cache t) = []"
    then show ?thesis by simp
  qed
  define t' where "t' = t\<lparr>tp_subscribers := AList.update (sub_id s) r (tp_subscribers t),
                           tp_total_subscribers := tp_total_subscribers t + 1\<rparr>"
  define tm2 where "tm2 = tm1\<lparr>tm_buffer := add_new_subscriber (tm_buffer tm1)\<rparr>"
  have tsub: "topic_subscribe r t st = Inr (Inr (t', st(r \<mapsto> sub_start s)))"
    using s sten tt by (simp add: topic_subscribe_def with_sub_def t'_def)
  have res: "tm_subscribe tenant name sid r now tm st = Inr (set_topic key t' tm2, st(r \<mapsto> sub_start s), None)"
    using s sten goc tsub by (simp add: tm_subscribe_def with_sub_def tm2_def)
  have keeps: "store_keeps st (st(r \<mapsto> sub_start s))" using s by (simp add: store_keeps_upd sub_start_def)
  have wf2: "tm_wf T tm2 (st(r \<mapsto> sub_start s))" using tm_wf_keeps [OF g(1) keeps] by (simp add: tm2_def)
  have t'wf: "topic_wf t' (st(r \<mapsto> sub_start s))" by (rule topic_wf_subscribe [OF twf(1) tsub])
  have t'ok: "topic_msgs_ok T t'" using twf(2) by (simp add: topic_msgs_ok_def t'_def)
  have map2: "map_of (tm_topics tm2) key = Some t" using g(3) by (simp add: tm2_def)
  have wf': "tm_wf T (set_topic key t' tm2) (st(r \<mapsto> sub_start s))"
    by (rule tm_wf_set_topic [OF wf2 map2 t'wf t'ok]) (simp_all add: t'_def)
  have cnt: "get_subscriber_count t' = Suc (get_subscriber_count t)"
    using fr by (simp add: t'_def get_subscriber_count_def length_update_new)
  have "tm_get_total_subscriber_count (set_topic key t' tm2) + get_subscriber_count t
        = tm_get_total_subscriber_count tm2 + get_subscriber_count t'"
    using g(1) map2 by (intro tm_total_set_topic) (simp_all add: tm2_def tm_wf_def)
  then have total: "tm_get_total_subscriber_count (set_topic key t' tm2) = Suc (tm_get_total_subscriber_count tm)"
    using cnt tm_total_get_or_create [OF wf ten goc] by (simp add: tm2_def)
  have kept: "topics_kept tm (set_topic key t' tm2)"
    using topics_kept_get_or_create [OF goc] topics_kept_set_topic [OF map2, of t']
    by (auto simp: tm2_def t'_def intro: topics_kept_trans)
  have fields: "tm_buffer tm1 = tm_buffer tm" "tm_throttler tm1 = tm_throttler tm"
    "tm_shut_down tm1 = tm_shut_down tm" "tm_monitor_running tm1 = tm_monitor_running tm"
    using g(4) by auto
  have "map_of (tm_topics (set_topic key t' tm2)) (make_topic_key tenant name) = Some t'"
    using g(2) by (simp add: set_topic_def)
  then show ?thesis
    using res wf' total kept fields tt
    by (intro exI [of _ "set_topic key t' tm2"]) (simp add: tm2_def set_topic_def t'_def)
qed

lemma tm_unsubscribe_cases:
  assumes wf: "tm_wf T tm st" and res: "tm_unsubscribe tenant name sid tm st = Inr (tm', st', e)"
  shows "(tm' = tm \<and> st' = st) \<or>
    (\<exists>r s. st r = Some s \<and> st' = st(r \<mapsto> sub_close s) \<and> tm_wf T tm' st'
       \<and> Suc (tm_get_total_subscriber_count tm') = tm_get_total_subscriber_count tm
       \<and> tm_buffer tm' = on_subscriber_removal (tm_buffer tm) \<and> tm_throttler tm' = tm_throttler tm
       \<and> tm_shut_down tm' = tm_shut_down tm \<and> tm_monitor_running tm' = tm_monitor_running tm
       \<and> topics_kept tm tm')"
proof (cases "map_of (tm_topics tm) (make_topic_key tenant name)")
  case None
  then show ?thesis using res by (simp add: tm_unsubscribe_def)
next
  case (Some t)
  define key where "key = make_topic_key tenant name"
  have tk: "map_of (tm_topics tm) key = Some t" using Some by (simp add: key_def)
  show ?thesis
  proof (cases "topic_unsubscribe sid t st")
    case (Inl p)
    then show ?thesis using res Some by (simp add: tm_unsubscribe_def)
  next
    case (Inr q)
    show ?thesis
    proof (cases q)
      case (Inl err)
      then show ?thesis using res Some Inr by (simp add: tm_unsubscribe_def)
    next
      case (Inr p)
      obtain t1 st1 where p: "p = (t1, st1)" by (cases p)
      have tu: "topic_unsubscribe sid t st = Inr (Inr (t1, st1))" using \<open>topic_unsubscribe sid t st = Inr q\<close> Inr p by simp
      have eqs: "tm' = (set_topic key t1 tm)\<lparr>tm_buffer := on_subscriber_removal (tm_buffer tm)\<rparr>" "st' = st1"
        using res Some tu by (simp_all add: tm_unsubscribe_def key_def)
      obtain r s where rs: "map_of (tp_subscribers t) sid = Some r" "st r = Some s"
        and t1: "t1 = t\<lparr>tp_subscribers := AList.delete sid (tp_subscribers t)\<rparr>" and st1: "st1 = st(r \<mapsto> sub_close s)"
        using topic_unsubscribe_Inr [OF tu] by blast
      have twf: "topic_wf t st" "topic_msgs_ok T t" using tm_wf_topic [OF wf tk] by simp_all
      have keeps: "store_keeps st st1" using rs(2) st1 by (simp add: store_keeps_upd)
      have wf1: "tm_wf T tm st1" by (rule tm_wf_keeps [OF wf keeps])
      have t1wf: "topic_wf t1 st1" by (rule topic_wf_unsubscribe [OF twf(1) tu])
      have t1ok: "topic_msgs_ok T t1" using twf(2) by (simp add: t1 topic_msgs_ok_def)
      have wf': "tm_wf T (set_topic key t1 tm) st1"
        by (rule tm_wf_set_topic [OF wf1 tk t1wf t1ok]) (simp_all add: t1)
      have "Suc (length (AList.delete sid (tp_subscribers t))) = length (tp_subscribers t)"
        using twf(1) rs(1) by (simp add: topic_wf_def delete_length)
      then have cnt: "Suc (get_subscriber_count t1) = get_subscriber_count t"
        by (simp add: t1 get_subscriber_count_def)
      have "tm_get_total_subscriber_count (set_topic key t1 tm) + get_subscriber_count t
            = tm_get_total_subscriber_count tm + get_subscriber_count t1"
        using wf tk by (intro tm_total_set_topic) (simp_all add: tm_wf_def)
      then have total: "Suc (tm_get_total_subscriber_count (set_topic key t1 tm)) = tm_get_total_subscriber_count tm"
        using cnt by simp
      have kept: "topics_kept tm (set_topic key t1 tm)" using tk by (rule topics_kept_set_topic) (simp add: t1)
      have "st r = Some s \<and> st' = st(r \<mapsto> sub_close s) \<and> tm_wf T tm' st'
       \<and> Suc (tm_get_total_subscriber_count tm') = tm_get_total_subscriber_count tm
       \<and> tm_buffer tm' = on_subscriber_removal (tm_buffer tm) \<and> tm_throttler tm' = tm_throttler tm
       \<and> tm_shut_down tm' = tm_shut_down tm \<and> tm_monitor_running tm' = tm_monitor_running tm
       \<and> topics_kept tm tm'"
        using eqs rs(2) st1 wf' total kept by (simp add: set_topic_def)
      then show ?thesis by blast
    qed
  qed
qed

lemma tm_publish_Inr:
  assumes res: "tm_publish tenant name msg now tm st = Inr (tm', st')"
  shows "\<exists>tm1 key t t'. get_or_create_topic tenant name now tm = Inr (tm1, key, t)
     \<and> topic_publish msg t st = Inr (t', st') \<and> tm' = set_topic key t' tm1"
proof (cases "get_or_create_topic tenant name now tm")
  case (Inl e)
  then show ?thesis using res by (simp add: tm_publish_def)
next
  case (Inr p)
  obtain tm1 key t where p: "p = (tm1, key, t)" by (cases p)
  show ?thesis
  proof (cases "topic_publish msg t st")
    case (Inl e)
    then show ?thesis using res Inr p by (simp add: tm_publish_def)
  next
    case (Inr q)
    obtain t' st1 where q: "q = (t', st1)" by (cases q)
    then show ?thesis using res \<open>get_or_create_topic tenant name now tm = Inr p\<close> p Inr
      by (auto simp: tm_publish_def)
  qed
qed

lemma topic_msgs_ok_add:
  "topic_msgs_ok T t \<Longrightarrow> rc_wf (tp_cache t) \<Longrightarrow> rc_add (tp_cache t) msg = Inr c \<Longrightarrow>
   msg_tenant msg = tp_tenant t \<Longrightarrow> topic_msgs_ok T (t\<lparr>tp_messages_published := n, tp_cache := c\<rparr>)"
  using rc_add_contents [of "tp_cache t" msg c]
  by (auto simp: topic_msgs_ok_def keep_last_def dest: in_set_dropD)

lemma tm_publish_ok:
  assumes wf: "tm_wf T tm st" and colon: "\<forall>x \<in> T. CHR '':'' \<notin> set x" and ten: "tenant \<in> T"
    and mt: "msg_tenant msg = tenant" and msgs: "store_msgs_ok st"
    and res: "tm_publish tenant name msg now tm st = Inr (tm', st')"
  shows "tm_wf T tm' st' \<and> store_msgs_ok st' \<and> store_keeps st st'
     \<and> tm_get_total_subscriber_count tm' = tm_get_total_subscriber_count tm
     \<and> tm_buffer tm' = tm_buffer tm \<and> tm_throttler tm' = tm_throttler tm
     \<and> tm_shut_down tm' = tm_shut_down tm \<and> tm_monitor_running tm' = tm_monitor_running tm
     \<and> topics_kept tm tm'"
proof -
  obtain tm1 key t t' where goc: "get_or_create_topic tenant name now tm = Inr (tm1, key, t)"
    and pub: "topic_publish msg t st = Inr (t', st')" and tm': "tm' = set_topic key t' tm1"
    using tm_publish_Inr [OF res] by blast
  have g: "tm_wf T tm1 st" "key = make_topic_key tenant name" "map_of (tm_topics tm1) key = Some t"
    "tm1 = tm \<or> (map_of (tm_topics tm) key = None \<and> tm1 = tm\<lparr>tm_topics := AList.update key t (tm_topics tm)\<rparr>
       \<and> tp_tenant t = tenant \<and> tp_name t = name \<and> tp_subscribers t = [] \<and> rc_contents (tp_cache t) = [])"
    using tm_wf_get_or_create [OF wf ten goc] by blast+
  have tt: "tp_tenant t = tenant" using tm_wf_lookup_tenant [OF g(1) _ colon ten] g(2,3) by blast
  have twf: "topic_wf t st" "topic_msgs_ok T t" using tm_wf_topic [OF g(1) g(3)] by simp_all
  obtain rs where beg: "topic_publish_begin msg t = Inr (t', rs)" and fo: "fan_out st msg rs = Inr st'"
    using topic_publish_Inr [OF pub] by blast
  obtain c where add: "rc_add (tp_cache t) msg = Inr c"
    and t': "t' = t\<lparr>tp_messages_published := tp_messages_published t + 1, tp_cache := c\<rparr>"
    and rs: "rs = get_subscribers_snapshot t"
    using topic_publish_begin_Inr [OF beg] by blast
  have keeps: "store_keeps st st'" by (rule fan_out_keeps [OF fo])
  have t'wf: "topic_wf t' st'" using topic_wf_publish_begin [OF twf(1) beg] keeps by (rule topic_wf_keeps)
  have t'ok: "topic_msgs_ok T t'"
    using topic_msgs_ok_add [OF twf(2) _ add] twf(1) tt mt by (simp add: t' topic_wf_def)
  have wf1: "tm_wf T tm1 st'" by (rule tm_wf_keeps [OF g(1) keeps])
  have wf': "tm_wf T tm' st'" unfolding tm' by (rule tm_wf_set_topic [OF wf1 g(3) t'wf t'ok]) (simp_all add: t')
  have rec: "\<forall>r \<in> set rs. \<forall>s. st r = Some s \<longrightarrow> sub_tenant s = msg_tenant msg"
    using twf(1) tt mt by (fastforce simp: rs get_subscribers_snapshot_def topic_wf_def)
  have msgs': "store_msgs_ok st'" by (rule fan_out_msgs_ok [OF fo msgs rec])
  have "tm_get_total_subscriber_count (set_topic key t' tm1) + get_subscriber_count t
        = tm_get_total_subscriber_count tm1 + get_subscriber_count t'"
    using g(1,3) by (intro tm_total_set_topic) (simp_all add: tm_wf_def)
  then have total: "tm_get_total_subscriber_count tm' = tm_get_total_subscriber_count tm"
    using tm_total_get_or_create [OF wf ten goc] by (simp add: tm' t' get_subscriber_count_def)
  have kept: "topics_kept tm tm'"
    using topics_kept_get_or_create [OF goc] topics_kept_set_topic [OF g(3), of t'] unfolding tm'
    by (auto simp: t' intro: topics_kept_trans)
  have fields: "tm_buffer tm1 = tm_buffer tm" "tm_throttler tm1 = tm_throttler tm"
    "tm_shut_down tm1 = tm_shut_down tm" "tm_monitor_running tm1 = tm_monitor_running tm"
    using g(4) by auto
  show ?thesis using wf' msgs' keeps total kept fields by (simp add: tm' set_topic_def)
qed

lemma close_all_ok:
  "set rs \<subseteq> dom st \<Longrightarrow> \<exists>st'. close_all st rs = Inr st'
     \<and> (\<forall>r \<in> set rs. \<exists>s. st' r = Some s \<and> sub_closed s)
     \<and> (\<forall>r s. st r = Some s \<longrightarrow> (\<exists>s'. st' r = Some s' \<and> sub_id s' = sub_id s \<and> sub_tenant s' = sub_tenant s
            \<and> sub_inbox s' = sub_inbox s \<and> sub_frames s' = sub_frames s \<and> (sub_closed s \<longrightarrow> sub_closed s')))"
proof (induction rs arbitrary: st)
  case Nil
  then show ?case by simp
next
  case (Cons r rs)
  then obtain s where s: "st r = Some s" by auto
  have "set rs \<subseteq> dom (st(r \<mapsto> sub_close s))" using Cons.prems by auto
  then obtain st' where st': "close_all (st(r \<mapsto> sub_close s)) rs = Inr st'"
    and cl: "\<forall>r \<in> set rs. \<exists>s. st' r = Some s \<and> sub_closed s"
    and kp: "\<forall>r' s'. (st(r \<mapsto> sub_close s)) r' = Some s' \<longrightarrow> (\<exists>s''. st' r' = Some s'' \<and> sub_id s'' = sub_id s'
            \<and> sub_tenant s'' = sub_tenant s' \<and> sub_inbox s'' = sub_inbox s' \<and> sub_frames s'' = sub_frames s'
            \<and> (sub_closed s' \<longrightarrow> sub_closed s''))"
    using Cons.IH by blast
  have res: "close_all st (r # rs) = Inr st'" using s st' by (simp add: with_sub_def)
  have "\<exists>s''. st' r = Some s'' \<and> sub_closed s''" using kp [rule_format, of r "sub_close s"] by auto
  moreover have "\<forall>r' s'. st r' = Some s' \<longrightarrow> (\<exists>s''. st' r' = Some s'' \<and> sub_id s'' = sub_id s'
            \<and> sub_tenant s'' = sub_tenant s' \<and> sub_inbox s'' = sub_inbox s' \<and> sub_frames s'' = sub_frames s'
            \<and> (sub_closed s' \<longrightarrow> sub_closed s''))"
  proof (intro allI impI)
    fix r' s' assume at: "st r' = Some s'"
    show "\<exists>s''. st' r' = Some s'' \<and> sub_id s'' = sub_id s' \<and> sub_tenant s'' = sub_tenant s'
            \<and> sub_inbox s'' = sub_inbox s' \<and> sub_frames s'' = sub_frames s' \<and> (sub_closed s' \<longrightarrow> sub_closed s'')"
    proof (cases "r' = r")
      case True
      then show ?thesis using kp [rule_format, of r "sub_close s"] at s by auto
    next
      case False
      then show ?thesis using kp [rule_format, of r' s'] at by auto
    qed
  qed
  ultimately show ?case using res cl by auto
qed

lemma tm_all_subscribers_dom:
  "tm_wf T tm st \<Longrightarrow> set (tm_all_subscribers tm) \<subseteq> dom st"
  unfolding tm_wf_def tm_all_subscribers_def
  by (fastforce dest: topic_wf_snapshot(2))

text \<open>
  C28. \<open>ShutDown\<close> on a well-formed registry that is not yet shut down
  succeeds, keeps every topic, leaves every subscriber of every topic closed,
  and a second call changes nothing (the \<open>sync.Once\<close>-like flag).
\<close>

theorem tm_shutdown_closes_all:
  assumes wf: "tm_wf T tm st" and live: "\<not> tm_shut_down tm"
  shows "\<exists>tm' st'. tm_shutdown tm st = Inr (tm', st') \<and> tm_shut_down tm' \<and> tm_topics tm' = tm_topics tm
     \<and> (\<forall>r \<in> set (tm_all_subscribers tm'). \<exists>s. st' r = Some s \<and> sub_closed s)
     \<and> tm_shutdown tm' st' = Inr (tm', st')"
proof -
  obtain st' where ca: "close_all st (tm_all_subscribers tm) = Inr st'"
    and cl: "\<forall>r \<in> set (tm_all_subscribers tm). \<exists>s. st' r = Some s \<and> sub_closed s"
    using close_all_ok [OF tm_all_subscribers_dom [OF wf]] by blast
  have "tm_shutdown tm st = Inr (tm\<lparr>tm_shut_down := True\<rparr>, st')" using live ca by (simp add: tm_shutdown_def)
  then show ?thesis using cl by (simp add: tm_shutdown_def tm_all_subscribers_def)
qed

lemma close_all_back:
  "close_all st rs = Inr st' \<Longrightarrow> st' r = Some s' \<Longrightarrow>
   \<exists>s. st r = Some s \<and> sub_tenant s' = sub_tenant s \<and> sub_inbox s' = sub_inbox s \<and> sub_frames s' = sub_frames s"
proof (induction rs arbitrary: st)
  case Nil
  then show ?case by simp
next
  case (Cons r0 rs)
  then obtain s0 where s0: "st r0 = Some s0" and rest: "close_all (st(r0 \<mapsto> sub_close s0)) rs = Inr st'"
    by (cases "st r0") (simp_all add: with_sub_def)
  from Cons.IH [OF rest Cons.prems(2)] obtain s where
    "(st(r0 \<mapsto> sub_close s0)) r = Some s" "sub_tenant s' = sub_tenant s" "sub_inbox s' = sub_inbox s"
    "sub_frames s' = sub_frames s" by blast
  then show ?case using s0 by (cases "r = r0") auto
qed

lemma store_msgs_ok_back:
  assumes "store_msgs_ok st"
    and "\<And>r s'. st' r = Some s' \<Longrightarrow> \<exists>s. st r = Some s \<and> sub_tenant s' = sub_tenant s
           \<and> set (sub_inbox s') \<union> set (sub_frames s') \<subseteq> set (sub_inbox s) \<union> set (sub_frames s)"
  shows "store_msgs_ok st'"
  unfolding store_msgs_ok_def
proof (intro allI impI ballI)
  fix r s' m assume at: "st' r = Some s'" and m: "m \<in> set (sub_inbox s') \<union> set (sub_frames s')"
  obtain s where "st r = Some s" "sub_tenant s' = sub_tenant s"
    "set (sub_inbox s') \<union> set (sub_frames s') \<subseteq> set (sub_inbox s) \<union> set (sub_frames s)"
    using assms(2) [OF at] by blast
  then show "msg_tenant m = sub_tenant s'" using assms(1) m unfolding store_msgs_ok_def by auto
qed

lemma tm_shutdown_preserves:
  assumes wf: "tm_wf T tm st" and msgs: "store_msgs_ok st" and res: "tm_shutdown tm st = Inr (tm', st')"
  shows "tm_wf T tm' st' \<and> store_msgs_ok st' \<and> store_keeps st st' \<and> tm_topics tm' = tm_topics tm
     \<and> tm_buffer tm' = tm_buffer tm \<and> tm_throttler tm' = tm_throttler tm
     \<and> tm_monitor_running tm' = tm_monitor_running tm"
proof (cases "tm_shut_down tm")
  case True
  then show ?thesis using res wf msgs by (simp add: tm_shutdown_def)
next
  case False
  obtain st1 where ca: "close_all st (tm_all_subscribers tm) = Inr st1"
    and kp: "\<forall>r s. st r = Some s \<longrightarrow> (\<exists>s'. st1 r = Some s' \<and> sub_id s' = sub_id s \<and> sub_tenant s' = sub_tenant s
            \<and> sub_inbox s' = sub_inbox s \<and> sub_frames s' = sub_frames s \<and> (sub_closed s \<longrightarrow> sub_closed s'))"
    using close_all_ok [OF tm_all_subscribers_dom [OF wf]] by blast
  have eq: "tm' = tm\<lparr>tm_shut_down := True\<rparr>" "st' = st1" using res False ca by (simp_all add: tm_shutdown_def)
  have keeps: "store_keeps st st1" unfolding store_keeps_def using kp by blast
  have "store_msgs_ok st1"
    by (rule store_msgs_ok_back [OF msgs]) (use close_all_back [OF ca] in fastforce)
  then show ?thesis using eq keeps tm_wf_keeps [OF wf keeps] by simp
qed

theorem make_topic_key_injective_witness:
  "CHR '':'' \<notin> set ''acme'' \<and> make_topic_key ''acme'' ''orders'' = make_topic_key ''acme'' ''orders''
   \<and> ''acme'' = ''acme'' \<and> ''orders'' = ''orders''"
  using make_topic_key_injective [of "''acme''" "''acme''" "''orders''" "''orders''"] by simp

theorem tm_shutdown_closes_all_witness:
  "tm_wf {''acme''} ex_tm1 ex_st1 \<and> \<not> tm_shut_down ex_tm1
   \<and> (\<exists>tm' st'. tm_shutdown ex_tm1 ex_st1 = Inr (tm', st') \<and> tm_shut_down tm'
        \<and> (\<forall>r \<in> set (tm_all_subscribers tm'). \<exists>s. st' r = Some s \<and> sub_closed s))"
proof -
  have wf: "tm_wf {''acme''} ex_tm1 ex_st1"
    using ex_t1_wf by (simp add: tm_wf_def make_topic_key_def topic_msgs_ok_def new_topic_def
                                 new_recent_message_cache_def rc_contents_def new_topic_manager_def)
  have live: "\<not> tm_shut_down ex_tm1" by (simp add: new_topic_manager_def)
  show ?thesis using tm_shutdown_closes_all [OF wf live] wf live by blast
qed

text \<open>
  C30. Round trip of the registry's bookkeeping: a fresh subscriber that
  \<open>Subscribe\<close>s and then \<open>Unsubscribe\<close>s by its id leaves the
  manager's total subscriber count and the buffer manager's count as they
  were, and ends closed.
\<close>

theorem tm_subscribe_unsubscribe_roundtrip:
  assumes wf: "tm_wf T tm st" and colon: "\<forall>x \<in> T. CHR '':'' \<notin> set x" and ten: "tenant \<in> T"
    and s: "st r = Some s" and sten: "sub_tenant s = tenant"
    and fresh: "\<forall>(k, t) \<in> set (tm_topics tm). sub_id s \<notin> fst ` set (tp_subscribers t)"
  shows "\<exists>tm1 tm2. tm_subscribe tenant name sid r now tm st = Inr (tm1, st(r \<mapsto> sub_start s), None)
     \<and> tm_unsubscribe tenant name (sub_id s) tm1 (st(r \<mapsto> sub_start s))
         = Inr (tm2, st(r \<mapsto> sub_close (sub_start s)), None)
     \<and> tm_get_total_subscriber_count tm2 = tm_get_total_subscriber_count tm
     \<and> tm_buffer tm2 = tm_buffer tm"
proof -
  obtain tm1 t where sub: "tm_subscribe tenant name sid r now tm st = Inr (tm1, st(r \<mapsto> sub_start s), None)"
    and wf1: "tm_wf T tm1 (st(r \<mapsto> sub_start s))"
    and tot1: "tm_get_total_subscriber_count tm1 = Suc (tm_get_total_subscriber_count tm)"
    and buf1: "tm_buffer tm1 = add_new_subscriber (tm_buffer tm)"
    and mt: "map_of (tm_topics tm1) (make_topic_key tenant name) = Some t"
    and sr: "map_of (tp_subscribers t) (sub_id s) = Some r"
    using tm_subscribe_fresh [OF wf colon ten s sten fresh, of name sid now] by blast
  define tm2 where "tm2 = (set_topic (make_topic_key tenant name)
                             (t\<lparr>tp_subscribers := AList.delete (sub_id s) (tp_subscribers t)\<rparr>) tm1)
                           \<lparr>tm_buffer := on_subscriber_removal (tm_buffer tm1)\<rparr>"
  have un: "tm_unsubscribe tenant name (sub_id s) tm1 (st(r \<mapsto> sub_start s))
              = Inr (tm2, st(r \<mapsto> sub_close (sub_start s)), None)"
    using mt sr by (simp add: tm_unsubscribe_def topic_unsubscribe_def with_sub_def tm2_def Let_def)
  have buf2: "tm_buffer tm2 = tm_buffer tm"
    using buf1 by (simp add: tm2_def set_topic_def on_subscriber_removal_def add_new_subscriber_def)
  have "tm2 = tm1 \<or> Suc (tm_get_total_subscriber_count tm2) = tm_get_total_subscriber_count tm1"
    using tm_unsubscribe_cases [OF wf1 un] by blast
  then have "tm_get_total_subscriber_count tm2 = tm_get_total_subscriber_count tm"
  proof
    assume "tm2 = tm1"
    then have "bm_subscriber_count (tm_buffer tm) + 1 = bm_subscriber_count (tm_buffer tm)"
      using buf1 buf2 by (metis add_new_subscriber_def buffer_manager.select_convs(2) buffer_manager.surjective
                       buffer_manager.update_convs(2))
    then show ?thesis by simp
  next
    assume "Suc (tm_get_total_subscriber_count tm2) = tm_get_total_subscriber_count tm1"
    then show ?thesis using tot1 by simp
  qed
  then show ?thesis using sub un buf2 by blast
qed

theorem tm_subscribe_unsubscribe_roundtrip_witness:
  "\<exists>tm1 tm2. tm_subscribe ''acme'' ''orders'' ''a'' 0 0 ex_tm0 (Map.empty(0 \<mapsto> ex_sub))
        = Inr (tm1, (Map.empty(0 \<mapsto> ex_sub))(0 \<mapsto> sub_start ex_sub), None)
     \<and> tm_unsubscribe ''acme'' ''orders'' (sub_id ex_sub) tm1 ((Map.empty(0 \<mapsto> ex_sub))(0 \<mapsto> sub_start ex_sub))
        = Inr (tm2, (Map.empty(0 \<mapsto> ex_sub))(0 \<mapsto> sub_close (sub_start ex_sub)), None)
     \<and> tm_get_total_subscriber_count tm2 = tm_get_total_subscriber_count ex_tm0
     \<and> tm_buffer tm2 = tm_buffer ex_tm0"
proof -
  have wf: "tm_wf {''acme''} ex_tm0 (Map.empty(0 \<mapsto> ex_sub))" by (simp add: tm_wf_def new_topic_manager_def)
  have s: "(Map.empty(0 \<mapsto> ex_sub)) 0 = Some ex_sub" by simp
  have ten: "sub_tenant ex_sub = ''acme''" by (simp add: new_subscriber_def)
  have fresh: "\<forall>(k, t) \<in> set (tm_topics ex_tm0). sub_id ex_sub \<notin> fst ` set (tp_subscribers t)"
    by (simp add: new_topic_manager_def)
  show ?thesis
    by (rule tm_subscribe_unsubscribe_roundtrip [OF wf _ _ s ten fresh]) simp_all
qed

end
