(* ===== verification/Handlers.thy ===== *)
theory Handlers
  imports TopicManager
begin

text \<open>
  The HTTP boundary of \<open>src/internal/handlers/publish.go\<close> (the publish and
  subscribe handlers) and \<open>health.go\<close>. Request parsing, the WebSocket
  upgrade and JSON encoding are library code: the model takes their outcomes
  as inputs (the decoded body or its failure, whether the upgrade succeeded)
  and returns the response as a value. The handlers share the topic manager,
  and through it the buffer manager and the throttler that \<open>main\<close> passes
  to both (\<open>src/unnamed/part_001\<close>).
\<close>

datatype http_method = GET | POST | OtherMethod string

text \<open>The decoded \<open>Publishrequest\<close>: a missing or null \<open>data\<close> field is \<open>None\<close> (a nil map).\<close>

record publish_body =
  pb_topic :: string
  pb_data :: "json_object option"

datatype publish_response =
    PublishSuccess string
  | PublishFailure string nat

text \<open>
  The tenant is the string value of the context key \<open>"tenantId"\<close>
  (\<open>None\<close> when absent or not a string), defaulting to
  \<open>"default-tenant"\<close>.
\<close>

definition resolve_tenant :: "string option \<Rightarrow> string" where
  "resolve_tenant ctx = (case ctx of Some t \<Rightarrow> if t = [] then ''default-tenant'' else t
                                  | None \<Rightarrow> ''default-tenant'')"

text \<open>
  \<open>PublishHandler.ServeHTTP\<close>. The clock is read at \<open>t0\<close> by
  \<open>ShouldThrottle\<close> (with the goroutine count \<open>g\<close> and heap size
  \<open>a\<close>), at \<open>t1\<close> by \<open>GenerateId\<close>, and at \<open>t2\<close> for the timestamp
  and the creation of a new topic. The result carries the response and the
  delay \<open>ApplyThrottle\<close> sleeps.
\<close>

definition publish_handler ::
  "http_method \<Rightarrow> string option \<Rightarrow> publish_body option \<Rightarrow> (int \<Rightarrow> string) \<Rightarrow>
   time_ns \<Rightarrow> time_ns \<Rightarrow> time_ns \<Rightarrow> nat \<Rightarrow> nat \<Rightarrow> topic_manager \<Rightarrow> sub_store \<Rightarrow>
   (topic_manager \<times> sub_store \<times> publish_response \<times> int) go_result" where
  "publish_handler meth ctx body fmt t0 t1 t2 g a tm st =
     (if meth \<noteq> POST then Inr (tm, st, PublishFailure ''Method Not Allowed'' 405, 0)
      else
        let tenant_id = resolve_tenant ctx in
        case body of
          None \<Rightarrow> Inr (tm, st, PublishFailure ''Invalid request Body'' 400, 0)
        | Some req \<Rightarrow>
            if pb_topic req = [] then Inr (tm, st, PublishFailure ''Topic Needed'' 400, 0)
            else case pb_data req of
              None \<Rightarrow> Inr (tm, st, PublishFailure ''DAta Needed'' 400, 0)
            | Some data \<Rightarrow>
                let (th1, throttle) = should_throttle t0 g a (tm_throttler tm);
                    delay = (if throttle then apply_throttle th1 else 0);
                    tm1 = tm\<lparr>tm_throttler := th1\<rparr>;
                    msg = new_message fmt t1 t2 (pb_topic req) tenant_id data
                in go_bind (tm_publish tenant_id (pb_topic req) msg t2 tm1 st) (\<lambda>(tm2, st2).
                     Inr (tm2, st2, PublishSuccess (msg_id msg), delay)))"

text \<open>
  \<open>SubscriberHandler.ServeHTTP\<close> up to its wait on the subscriber's context:
  the topic parameter, the upgrade (\<open>accept_ok\<close>), the fresh id \<open>uuid\<close>,
  the buffer size, \<open>NewSubscriber\<close> in the fresh store cell \<open>r\<close>, and
  \<open>TopicManager.Subscribe\<close>. A rejected subscription closes the connection
  and returns; an accepted one leaves the handler waiting.
\<close>

datatype subscribe_outcome =
    SubBadRequest
  | SubUpgradeFailed
  | SubRejected topic_error
  | SubWaiting

definition subscribe_handler_start ::
  "string option \<Rightarrow> string \<Rightarrow> bool \<Rightarrow> string \<Rightarrow> sub_ref \<Rightarrow> time_ns \<Rightarrow> topic_manager \<Rightarrow> sub_store \<Rightarrow>
   (topic_manager \<times> sub_store \<times> subscribe_outcome) go_result" where
  "subscribe_handler_start ctx topic accept_ok uuid r now tm st =
     (let tenant_id = resolve_tenant ctx in
      if topic = [] then Inr (tm, st, SubBadRequest)
      else if \<not> accept_ok then Inr (tm, st, SubUpgradeFailed)
      else
        let buffer_size = get_buffer_size (tm_buffer tm) in
        go_bind (new_subscriber uuid tenant_id topic buffer_size now) (\<lambda>s.
          go_bind (tm_subscribe tenant_id topic uuid r now tm (st(r \<mapsto> s))) (\<lambda>(tm1, st1, err).
            case err of
              Some e \<Rightarrow> Inr (tm1, st1, SubRejected e)
            | None \<Rightarrow> Inr (tm1, st1, SubWaiting))))"

text \<open>
  The rest of the subscribe handler, once the subscriber's context is done
  (\<open>None\<close> while it is not): \<open>Unsubscribe\<close>, whose error is ignored.
\<close>

definition subscribe_handler_finish ::
  "string \<Rightarrow> string \<Rightarrow> string \<Rightarrow> sub_ref \<Rightarrow> topic_manager \<Rightarrow> sub_store \<Rightarrow>
   (topic_manager \<times> sub_store) go_result option" where
  "subscribe_handler_finish tenant_id topic uuid r tm st =
     (case st r of
        Some s \<Rightarrow>
          if sub_ctx_cancelled s
          then Some (go_bind (tm_unsubscribe tenant_id topic uuid tm st) (\<lambda>(tm', st', _). Inr (tm', st')))
          else None
      | None \<Rightarrow> None)"

text \<open>
  \<open>uuid.New()\<close> is assumed to give an id that no subscriber of the store
  has (122 random bits).
\<close>

definition is_fresh_id :: "sub_store \<Rightarrow> string \<Rightarrow> bool" where
  "is_fresh_id st i \<longleftrightarrow> (\<forall>r s. st r = Some s \<longrightarrow> sub_id s \<noteq> i)"

text \<open>
  \<open>src/internal/handlers/health.go\<close>. The runtime readings are inputs:
  \<open>runtime.ReadMemStats\<close> (the four fields the handler reads),
  \<open>runtime.NumGoroutine\<close> and the clock, read once for \<open>Timestamp\<close> and once
  by \<open>time.Since\<close>. The uptime is the \<open>time.Duration\<close> itself (its
  \<open>String()\<close> rendering is library formatting), and \<open>float64(x) / 1024 / 1024\<close>
  is a real division, as for the throttler's ratios.
\<close>

record mem_stats =
  ms_alloc :: nat
  ms_total_alloc :: nat
  ms_sys :: nat
  ms_num_gc :: nat

record health_response =
  hr_status :: string
  hr_timestamp :: time_ns
  hr_uptime :: int
  hr_topics :: nat
  hr_subscribers :: nat
  hr_goroutines :: nat
  hr_alloc_mb :: real
  hr_total_alloc_mb :: real
  hr_sys_mb :: real
  hr_num_gc :: nat

record health_handler_state =
  hh_start_time :: time_ns

definition new_health_handler :: "time_ns \<Rightarrow> health_handler_state" where
  "new_health_handler now = \<lparr>hh_start_time = now\<rparr>"

definition health_handler ::
  "health_handler_state \<Rightarrow> mem_stats \<Rightarrow> time_ns \<Rightarrow> time_ns \<Rightarrow> nat \<Rightarrow> topic_manager \<Rightarrow> health_response" where
  "health_handler h m t_ts t_up goroutines tm =
     \<lparr>hr_status = ''healthy'', hr_timestamp = t_ts, hr_uptime = t_up - hh_start_time h,
      hr_topics = tm_get_topic_count tm, hr_subscribers = tm_get_total_subscriber_count tm,
      hr_goroutines = goroutines,
      hr_alloc_mb = real (ms_alloc m) / 1024 / 1024,
      hr_total_alloc_mb = real (ms_total_alloc m) / 1024 / 1024,
      hr_sys_mb = real (ms_sys m) / 1024 / 1024,
      hr_num_gc = ms_num_gc m\<rparr>"

text \<open>An empty registry and a well-formed publish request, for concrete runs.\<close>

abbreviation ex_body :: "publish_body option" where
  "ex_body \<equiv> Some \<lparr>pb_topic = ''orders'', pb_data = Some []\<rparr>"

abbreviation ms_ex :: mem_stats where
  "ms_ex \<equiv> \<lparr>ms_alloc = 1048576, ms_total_alloc = 2097152, ms_sys = 8388608, ms_num_gc = 1\<rparr>"

subsection \<open>Lemmas\<close>

lemma publish_handler_cases:
  assumes "publish_handler meth ctx body fmt t0 t1 t2 g a tm st = Inr (tm', st', resp, d)"
  shows "(tm' = tm \<and> st' = st) \<or>
    (\<exists>th1 msg. msg_tenant msg = resolve_tenant ctx
       \<and> tm_publish (resolve_tenant ctx) (msg_topic msg) msg t2 (tm\<lparr>tm_throttler := th1\<rparr>) st = Inr (tm', st'))"
proof -
  consider (m) "meth \<noteq> POST" | (b) "meth = POST" "body = None"
    | (tp) req where "meth = POST" "body = Some req" "pb_topic req = []"
    | (dt) req where "meth = POST" "body = Some req" "pb_topic req \<noteq> []" "pb_data req = None"
    | (ok) req data where "meth = POST" "body = Some req" "pb_topic req \<noteq> []" "pb_data req = Some data"
    by (metis option.exhaust)
  then show ?thesis
  proof cases
    case m
    then show ?thesis using assms by (simp add: publish_handler_def)
  next
    case b
    then show ?thesis using assms by (simp add: publish_handler_def)
  next
    case tp
    then show ?thesis using assms by (simp add: publish_handler_def)
  next
    case dt
    then show ?thesis using assms by (simp add: publish_handler_def)
  next
    case ok
    obtain th1 thr where sh: "should_throttle t0 g a (tm_throttler tm) = (th1, thr)" by (cases "should_throttle t0 g a (tm_throttler tm)")
    let ?msg = "new_message fmt t1 t2 (pb_topic req) (resolve_tenant ctx) data"
    have "tm_publish (resolve_tenant ctx) (pb_topic req) ?msg t2 (tm\<lparr>tm_throttler := th1\<rparr>) st = Inr (tm', st')"
      using assms ok sh by (cases "tm_publish (resolve_tenant ctx) (pb_topic req) ?msg t2 (tm\<lparr>tm_throttler := th1\<rparr>) st")
                            (auto simp: publish_handler_def Let_def)
    then show ?thesis by (intro disjI2 exI [of _ th1] exI [of _ ?msg]) simp
  qed
qed

lemma new_subscriber_ok:
  "0 \<le> buf \<Longrightarrow> \<exists>s. new_subscriber i tenant topic buf now = Inr s \<and> sub_id s = i \<and> sub_tenant s = tenant
     \<and> sub_inbox s = [] \<and> sub_frames s = []"
  by (simp add: new_subscriber_def)

lemma fresh_not_key:
  "tm_wf T tm st \<Longrightarrow> is_fresh_id st i \<Longrightarrow> \<forall>(k, t) \<in> set (tm_topics tm). i \<notin> fst ` set (tp_subscribers t)"
  unfolding tm_wf_def topic_wf_def is_fresh_id_def by fastforce

lemma subscribe_handler_start_fresh:
  assumes wf: "tm_wf T tm st" and colon: "\<forall>x \<in> T. CHR '':'' \<notin> set x" and ten: "resolve_tenant ctx \<in> T"
    and bm: "bm_reach (tm_buffer tm)" and none: "st r = None" and fresh: "is_fresh_id st uuid"
    and topic: "topic \<noteq> []"
  shows "\<exists>tm' s. subscribe_handler_start ctx topic True uuid r now tm st = Inr (tm', st(r \<mapsto> sub_start s), SubWaiting)
     \<and> sub_id s = uuid \<and> sub_tenant s = resolve_tenant ctx \<and> sub_inbox s = [] \<and> sub_frames s = []
     \<and> tm_wf T tm' (st(r \<mapsto> sub_start s))
     \<and> tm_get_total_subscriber_count tm' = Suc (tm_get_total_subscriber_count tm)
     \<and> tm_buffer tm' = add_new_subscriber (tm_buffer tm)
     \<and> topics_kept tm tm'
     \<and> (\<exists>t. map_of (tm_topics tm') (make_topic_key (resolve_tenant ctx) topic) = Some t
            \<and> tp_tenant t = resolve_tenant ctx)"
proof -
  have "0 \<le> get_buffer_size (tm_buffer tm)" using bm_reach_size_bounds [OF bm] by simp
  then obtain s where ns: "new_subscriber uuid (resolve_tenant ctx) topic (get_buffer_size (tm_buffer tm)) now = Inr s"
    and sf: "sub_id s = uuid" "sub_tenant s = resolve_tenant ctx" "sub_inbox s = []" "sub_frames s = []"
    using new_subscriber_ok by blast
  have wf1: "tm_wf T tm (st(r \<mapsto> s))" using tm_wf_keeps [OF wf store_keeps_alloc [of st r s]] none by simp
  have fr: "\<forall>(k, t) \<in> set (tm_topics tm). sub_id s \<notin> fst ` set (tp_subscribers t)"
    using fresh_not_key [OF wf fresh] sf(1) by simp
  obtain tm' where sub: "tm_subscribe (resolve_tenant ctx) topic uuid r now tm (st(r \<mapsto> s))
                          = Inr (tm', (st(r \<mapsto> s))(r \<mapsto> sub_start s), None)"
    and rest: "tm_wf T tm' ((st(r \<mapsto> s))(r \<mapsto> sub_start s))"
      "tm_get_total_subscriber_count tm' = Suc (tm_get_total_subscriber_count tm)"
      "tm_buffer tm' = add_new_subscriber (tm_buffer tm)" "topics_kept tm tm'"
      "\<exists>t. map_of (tm_topics tm') (make_topic_key (resolve_tenant ctx) topic) = Some t \<and> tp_tenant t = resolve_tenant ctx"
    using tm_subscribe_fresh [OF wf1 colon ten _ sf(2) fr, of r topic uuid now] by auto
  have "subscribe_handler_start ctx topic True uuid r now tm st = Inr (tm', st(r \<mapsto> sub_start s), SubWaiting)"
    using topic ns sub by (simp add: subscribe_handler_start_def)
  then show ?thesis using sf rest by auto
qed

text \<open>
  C29. The publish handler's responses: a method other than POST is answered
  405; every failure (405 or 400) leaves registry and store untouched and
  sleeps 0; a success returns the id \<open>GenerateId\<close> made from the clock
  and sleeps \<open>MinPublishInterval\<close> exactly when \<open>ShouldThrottle\<close> said
  yes.
\<close>

theorem publish_handler_response:
  assumes res: "publish_handler meth ctx body fmt t0 t1 t2 g a tm st = Inr (tm', st', resp, d)"
  shows "(meth \<noteq> POST \<longrightarrow> resp = PublishFailure ''Method Not Allowed'' 405)
    \<and> (\<forall>m c. resp = PublishFailure m c \<longrightarrow> tm' = tm \<and> st' = st \<and> d = 0 \<and> c \<in> {400, 405})
    \<and> (\<forall>i. resp = PublishSuccess i \<longrightarrow> i = generate_id fmt t1
         \<and> d = (if snd (should_throttle t0 g a (tm_throttler tm))
                then min_publish_interval (th_config (tm_throttler tm)) else 0))"
proof -
  consider (m) "meth \<noteq> POST" | (b) "meth = POST" "body = None"
    | (tp) req where "meth = POST" "body = Some req" "pb_topic req = []"
    | (dt) req where "meth = POST" "body = Some req" "pb_topic req \<noteq> []" "pb_data req = None"
    | (ok) req data where "meth = POST" "body = Some req" "pb_topic req \<noteq> []" "pb_data req = Some data"
    by (metis option.exhaust)
  then show ?thesis
  proof cases
    case ok
    obtain th1 thr where st: "should_throttle t0 g a (tm_throttler tm) = (th1, thr)" by fastforce
    have cfg: "th_config th1 = th_config (tm_throttler tm)"
      using should_throttle_config [of t0 g a "tm_throttler tm"] st by simp
    have arm: "thr \<Longrightarrow> th_is_throttling th1"
      using should_throttle_armed [of t0 g a "tm_throttler tm"] st by simp
    show ?thesis using res ok st cfg arm
      by (auto simp: publish_handler_def apply_throttle_def new_message_def go_bind_def Let_def
               split: sum.splits prod.splits)
  qed (use res in \<open>auto simp: publish_handler_def\<close>)
qed

theorem publish_handler_response_witness:
  "\<exists>tm' st' d. publish_handler POST None ex_body (\<lambda>_. ''0'') 0 0 0 0 0 ex_tm0 Map.empty
                  = Inr (tm', st', PublishSuccess ''msg-0'', d) \<and> d = 0"
proof -
  obtain tm' st' resp d where r: "publish_handler POST None ex_body (\<lambda>_. ''0'') 0 0 0 0 0 ex_tm0 Map.empty
                                   = Inr (tm', st', resp, d)"
    and ok: "resp = PublishSuccess ''msg-0''"
    by (simp add: publish_handler_def resolve_tenant_def should_throttle_def new_adaptive_throttler_def
                  default_config_def tm_publish_def get_or_create_topic_def new_topic_def
                  new_recent_message_cache_def topic_publish_def topic_publish_begin_def rc_add_def
                  go_update_def go_rem_def get_subscribers_snapshot_def new_message_def generate_id_def
                  new_topic_manager_def Let_def)
  have "d = (if snd (should_throttle 0 0 0 (tm_throttler ex_tm0))
             then min_publish_interval (th_config (tm_throttler ex_tm0)) else 0)"
    using publish_handler_response [OF r] ok by simp
  then have "d = 0"
    by (simp add: should_throttle_def new_topic_manager_def new_adaptive_throttler_def default_config_def)
  then show ?thesis using r ok by blast
qed

end
