(* ===== verification/System.thy ===== *)
theory System
  imports Handlers Config
begin

text \<open>
  The running server (\<open>main\<close> of \<open>src/unnamed/part_001\<close>): one topic
  manager, buffer manager and throttler shared by every handler goroutine,
  over the store of subscribers. \<open>srv_reach\<close> interleaves every atomic
  step the goroutines take: the publish handler, the two halves of the
  subscribe handler, the catch-up goroutine of \<open>Topic.Subscribe\<close> (read the
  cache, then send one message at a time), each subscriber's send loop and
  connection loss, the registry monitor, the buffer manager's ticker, the
  throttler's disarm timer, and shutdown. The invariant \<open>srv_inv\<close> holds in
  every reachable state; from it follow tenant isolation and the buffer
  manager's subscriber ledger.
\<close>

text \<open>
  The state the goroutines share. The publish handler holds the same
  throttler as the manager and the subscribe handler the same buffer manager
  (\<open>main\<close> passes one pointer to both), so the handlers read them through
  \<open>srv_tm\<close>. \<open>srv_waiting\<close> lists the subscribe handlers blocked on their
  subscriber's context, \<open>srv_catchup\<close> the catch-up goroutines of
  \<open>Topic.Subscribe\<close> (key, subscriber, messages still to send once read).
\<close>

record server =
  srv_tm :: topic_manager
  srv_store :: sub_store
  srv_health :: health_handler_state
  srv_waiting :: "(string \<times> string \<times> string \<times> sub_ref) list"
  srv_catchup :: "(string \<times> sub_ref \<times> message list option) list"

definition start_server :: "int64 \<Rightarrow> time_ns \<Rightarrow> server" where
  "start_server max_memory now =
     \<lparr>srv_tm = new_topic_manager (bm_start (new_adaptive_buffer_manager max_memory))
                                 (new_adaptive_throttler default_config now),
      srv_store = Map.empty, srv_health = new_health_handler now, srv_waiting = [], srv_catchup = []\<rparr>"

text \<open>\<open>main\<close> up to the handlers: \<open>LoadConfig\<close>, then the components from its budget.\<close>

definition main_start :: "environment \<Rightarrow> time_ns \<Rightarrow> server" where
  "main_start env now = start_server (cfg_max_memory (load_config env)) now"

text \<open>
  The routes of \<open>main\<close>'s \<open>http.ServeMux\<close>. A pattern without a trailing
  slash matches its path exactly; \<open>"/"\<close> matches every other path. The
  path is taken after the mux's cleaning (its redirect of unclean paths is
  library behaviour). No route restricts the method.
\<close>

datatype endpoint = EPublish | ESubscribe | EHealth | EMetrics | ERoot

definition mux_route :: "string \<Rightarrow> endpoint" where
  "mux_route path =
     (if path = ''/publish'' then EPublish
      else if path = ''/subscribe'' then ESubscribe
      else if path = ''/health'' then EHealth
      else if path = ''/metrics'' then EMetrics
      else ERoot)"

text \<open>\<open>/metrics\<close>: the registry's \<open>GetMetrics\<close>, printed with \<open>%v\<close>.\<close>

definition metrics_handler ::
  "sub_store \<Rightarrow> topic_manager \<Rightarrow>
   (nat \<times> nat \<times> nat \<times> (string \<times> string \<times> int \<times> nat \<times> int \<times> time_ns) list
    \<times> (bool \<times> int \<times> int \<times> nat \<times> nat)) go_result" where
  "metrics_handler st tm = tm_get_metrics st tm"

text \<open>\<open>/\<close>: the fixed plain-text page, one \<open>Fprintf\<close> per line.\<close>

definition root_page :: string where
  "root_page =
     ''ClevrLive event Streaming system'' @ [CHR 0x0A, CHR 0x0A]
     @ ''Endpoints:'' @ [CHR 0x0A]
     @ ''  POST /publish          - Publish a message'' @ [CHR 0x0A]
     @ ''  WS   /subscribe?topic= - Subscribe to a topic'' @ [CHR 0x0A]
     @ ''  GET  /health           - Health check'' @ [CHR 0x0A]
     @ ''  GET  /metrics          - System metrics'' @ [CHR 0x0A]"


inductive srv_reach :: "string set \<Rightarrow> server \<Rightarrow> bool" for T :: "string set" where
  init: "srv_reach T (main_start env now)"
| publish: "srv_reach T srv \<Longrightarrow> resolve_tenant ctx \<in> T \<Longrightarrow>
            publish_handler meth ctx body fmt t0 t1 t2 g a (srv_tm srv) (srv_store srv) = Inr (tm', st', resp, d) \<Longrightarrow>
            srv_reach T (srv\<lparr>srv_tm := tm', srv_store := st'\<rparr>)"
| subscribe: "srv_reach T srv \<Longrightarrow> resolve_tenant ctx \<in> T \<Longrightarrow> srv_store srv r = None \<Longrightarrow>
              is_fresh_id (srv_store srv) uuid \<Longrightarrow>
              subscribe_handler_start ctx topic ok uuid r now (srv_tm srv) (srv_store srv) = Inr (tm', st', out) \<Longrightarrow>
              srv_reach T (srv\<lparr>srv_tm := tm', srv_store := st',
                 srv_waiting := srv_waiting srv @ (if out = SubWaiting then [(resolve_tenant ctx, topic, uuid, r)] else []),
                 srv_catchup := srv_catchup srv @ (if out = SubWaiting then [(make_topic_key (resolve_tenant ctx) topic, r, None)] else [])\<rparr>)"
| finish: "srv_reach T srv \<Longrightarrow> i < length (srv_waiting srv) \<Longrightarrow> srv_waiting srv ! i = (tn, tp, u, r) \<Longrightarrow>
           subscribe_handler_finish tn tp u r (srv_tm srv) (srv_store srv) = Some (Inr (tm', st')) \<Longrightarrow>
           srv_reach T (srv\<lparr>srv_tm := tm', srv_store := st', srv_waiting := remove_nth i (srv_waiting srv)\<rparr>)"
| catchup_read: "srv_reach T srv \<Longrightarrow> i < length (srv_catchup srv) \<Longrightarrow> srv_catchup srv ! i = (k, r, None) \<Longrightarrow>
                 map_of (tm_topics (srv_tm srv)) k = Some t \<Longrightarrow> rc_get_last (tp_cache t) 50 = Inr ms \<Longrightarrow>
                 srv_reach T (srv\<lparr>srv_catchup := (srv_catchup srv)[i := (k, r, Some ms)]\<rparr>)"
| catchup_send: "srv_reach T srv \<Longrightarrow> i < length (srv_catchup srv) \<Longrightarrow> srv_catchup srv ! i = (k, r, Some (m # ms)) \<Longrightarrow>
                 store_send (srv_store srv) r m = Inr (st', e) \<Longrightarrow>
                 srv_reach T (srv\<lparr>srv_store := st', srv_catchup :=
                   (if e = None then (srv_catchup srv)[i := (k, r, Some ms)] else remove_nth i (srv_catchup srv))\<rparr>)"
| catchup_done: "srv_reach T srv \<Longrightarrow> i < length (srv_catchup srv) \<Longrightarrow> srv_catchup srv ! i = (k, r, Some []) \<Longrightarrow>
                 srv_reach T (srv\<lparr>srv_catchup := remove_nth i (srv_catchup srv)\<rparr>)"
| loop: "srv_reach T srv \<Longrightarrow> srv_store srv r = Some s \<Longrightarrow> send_loop_step now ev s = Some (s', out) \<Longrightarrow>
         srv_reach T (srv\<lparr>srv_store := (srv_store srv)(r \<mapsto> s')\<rparr>)"
| disconnect: "srv_reach T srv \<Longrightarrow> srv_store srv r = Some s \<Longrightarrow>
               srv_reach T (srv\<lparr>srv_store := (srv_store srv)(r \<mapsto> sub_cancel_parent s)\<rparr>)"
| monitor: "srv_reach T srv \<Longrightarrow> monitor_step ev (srv_store srv) (srv_tm srv) = Some (Inr tm') \<Longrightarrow>
            srv_reach T (srv\<lparr>srv_tm := tm'\<rparr>)"
| buffer_tick: "srv_reach T srv \<Longrightarrow> bm_monitor_step ev (tm_buffer (srv_tm srv)) = Some bm' \<Longrightarrow>
                srv_reach T (srv\<lparr>srv_tm := (srv_tm srv)\<lparr>tm_buffer := bm'\<rparr>\<rparr>)"
| throttle_timer: "srv_reach T srv \<Longrightarrow> fire_timer now i (tm_throttler (srv_tm srv)) = Some th' \<Longrightarrow>
                   srv_reach T (srv\<lparr>srv_tm := (srv_tm srv)\<lparr>tm_throttler := th'\<rparr>\<rparr>)"
| shutdown: "srv_reach T srv \<Longrightarrow> tm_shutdown (srv_tm srv) (srv_store srv) = Inr (tm', st') \<Longrightarrow>
             srv_reach T (srv\<lparr>srv_tm := tm', srv_store := st'\<rparr>)"
| buffer_stop: "srv_reach T srv \<Longrightarrow> bm_stop (tm_buffer (srv_tm srv)) = Inr bm' \<Longrightarrow>
                srv_reach T (srv\<lparr>srv_tm := (srv_tm srv)\<lparr>tm_buffer := bm'\<rparr>\<rparr>)"

definition catchup_ok ::
  "topic_manager \<Rightarrow> sub_store \<Rightarrow> (string \<times> sub_ref \<times> message list option) list \<Rightarrow> bool" where
  "catchup_ok tm st cs \<longleftrightarrow>
     (\<forall>(k, r, rest) \<in> set cs. \<exists>t s. map_of (tm_topics tm) k = Some t \<and> st r = Some s
        \<and> sub_tenant s = tp_tenant t \<and> (\<forall>ms. rest = Some ms \<longrightarrow> (\<forall>m \<in> set ms. msg_tenant m = tp_tenant t)))"

definition srv_inv :: "string set \<Rightarrow> server \<Rightarrow> bool" where
  "srv_inv T srv \<longleftrightarrow>
     tm_wf T (srv_tm srv) (srv_store srv) \<and> store_msgs_ok (srv_store srv)
     \<and> catchup_ok (srv_tm srv) (srv_store srv) (srv_catchup srv)
     \<and> bm_reach (tm_buffer (srv_tm srv))
     \<and> bm_subscriber_count (tm_buffer (srv_tm srv)) = word_of_int (int (tm_get_total_subscriber_count (srv_tm srv)))"

text \<open>
  Concrete runs: the server started at time 0 in an empty environment, one
  subscriber (id \<open>u1\<close>, cell 0) of a topic, then one publish.
\<close>

abbreviation sc_srv0 :: server where
  "sc_srv0 \<equiv> main_start Map.empty 0"

abbreviation sc_sub :: "string option \<Rightarrow> string \<Rightarrow> (topic_manager \<times> sub_store \<times> subscribe_outcome) go_result" where
  "sc_sub ctx topic \<equiv> subscribe_handler_start ctx topic True ''u1'' 0 0 (srv_tm sc_srv0) (srv_store sc_srv0)"

abbreviation sc_srv1 :: "string option \<Rightarrow> string \<Rightarrow> server" where
  "sc_srv1 ctx topic \<equiv> sc_srv0\<lparr>srv_tm := fst (projr (sc_sub ctx topic)), srv_store := fst (snd (projr (sc_sub ctx topic))),
     srv_waiting := [(resolve_tenant ctx, topic, ''u1'', 0)],
     srv_catchup := [(make_topic_key (resolve_tenant ctx) topic, 0, None)]\<rparr>"

abbreviation sc_pub ::
  "string option \<Rightarrow> string \<Rightarrow> string option \<Rightarrow> string \<Rightarrow>
   (topic_manager \<times> sub_store \<times> publish_response \<times> int) go_result" where
  "sc_pub ctx topic pctx ptopic \<equiv>
     publish_handler POST pctx (Some \<lparr>pb_topic = ptopic, pb_data = Some []\<rparr>) (\<lambda>_. ''0'') 0 0 0 0 0
       (srv_tm (sc_srv1 ctx topic)) (srv_store (sc_srv1 ctx topic))"

abbreviation sc_srv2 :: "string option \<Rightarrow> string \<Rightarrow> string option \<Rightarrow> string \<Rightarrow> server" where
  "sc_srv2 ctx topic pctx ptopic \<equiv> (sc_srv1 ctx topic)\<lparr>srv_tm := fst (projr (sc_pub ctx topic pctx ptopic)),
     srv_store := fst (snd (projr (sc_pub ctx topic pctx ptopic)))\<rparr>"

subsection \<open>Lemmas\<close>

lemma catchup_ok_mono:
  "catchup_ok tm st cs \<Longrightarrow> topics_kept tm tm' \<Longrightarrow> store_keeps st st' \<Longrightarrow> set cs' \<subseteq> set cs \<Longrightarrow>
   catchup_ok tm' st' cs'"
  unfolding catchup_ok_def topics_kept_def store_keeps_def
  by (smt (verit, best) case_prodD case_prodI2 subsetD)

lemma catchup_ok_same_topics:
  "tm_topics tm' = tm_topics tm \<Longrightarrow> catchup_ok tm' st cs = catchup_ok tm st cs"
  by (simp add: catchup_ok_def)

lemma topics_kept_same: "tm_topics tm' = tm_topics tm \<Longrightarrow> topics_kept tm tm'"
  by (simp add: topics_kept_def)

lemma tm_wf_same_topics: "tm_topics tm' = tm_topics tm \<Longrightarrow> tm_wf T tm' st = tm_wf T tm st"
  by (simp add: tm_wf_def)

lemma tm_total_same_topics:
  "tm_topics tm' = tm_topics tm \<Longrightarrow> tm_get_total_subscriber_count tm' = tm_get_total_subscriber_count tm"
  by (simp add: tm_get_total_subscriber_count_def)

lemma monitor_step_topics:
  "monitor_step ev st tm = Some (Inr tm') \<Longrightarrow> tm_topics tm' = tm_topics tm \<and> tm_buffer tm' = tm_buffer tm"
  by (auto simp: monitor_step_def split: if_splits monitor_event.splits sum.splits)

lemma bm_monitor_step_count:
  "bm_monitor_step ev bm = Some bm' \<Longrightarrow> bm_subscriber_count bm' = bm_subscriber_count bm"
  by (auto simp: bm_monitor_step_def split: if_splits bm_event.splits)

lemma topics_kept_throttler_left [simp]:
  "topics_kept (tm\<lparr>tm_throttler := th\<rparr>) tm' = topics_kept tm tm'"
  by (simp add: topics_kept_def)

lemma word_of_nat_Suc: "word_of_int (int (Suc n)) = (word_of_int (int n) :: 'a::len word) + 1"
  by (simp add: wi_hom_syms)

lemma srv_inv_publish:
  assumes inv: "srv_inv T srv" and colon: "\<forall>x \<in> T. CHR '':'' \<notin> set x" and ten: "resolve_tenant ctx \<in> T"
    and res: "publish_handler meth ctx body fmt t0 t1 t2 g a (srv_tm srv) (srv_store srv) = Inr (tm', st', resp, d)"
  shows "srv_inv T (srv\<lparr>srv_tm := tm', srv_store := st'\<rparr>)"
  using publish_handler_cases [OF res]
proof
  assume "tm' = srv_tm srv \<and> st' = srv_store srv"
  then show ?thesis using inv by (simp add: srv_inv_def)
next
  assume "\<exists>th1 msg. msg_tenant msg = resolve_tenant ctx
       \<and> tm_publish (resolve_tenant ctx) (msg_topic msg) msg t2 ((srv_tm srv)\<lparr>tm_throttler := th1\<rparr>) (srv_store srv) = Inr (tm', st')"
  then obtain th1 msg where mt: "msg_tenant msg = resolve_tenant ctx"
    and pub: "tm_publish (resolve_tenant ctx) (msg_topic msg) msg t2 ((srv_tm srv)\<lparr>tm_throttler := th1\<rparr>) (srv_store srv) = Inr (tm', st')"
    by blast
  have wf: "tm_wf T ((srv_tm srv)\<lparr>tm_throttler := th1\<rparr>) (srv_store srv)" "store_msgs_ok (srv_store srv)"
    using inv by (simp_all add: srv_inv_def)
  note r = tm_publish_ok [OF wf(1) colon ten mt wf(2) pub]
  show ?thesis using r inv catchup_ok_mono [of "srv_tm srv" "srv_store srv" "srv_catchup srv" tm' st']
    by (simp add: srv_inv_def)
qed

lemma srv_inv_subscribe:
  assumes inv: "srv_inv T srv" and colon: "\<forall>x \<in> T. CHR '':'' \<notin> set x" and ten: "resolve_tenant ctx \<in> T"
    and none: "srv_store srv r = None" and fresh: "is_fresh_id (srv_store srv) uuid"
    and res: "subscribe_handler_start ctx topic ok uuid r now (srv_tm srv) (srv_store srv) = Inr (tm', st', out)"
  shows "srv_inv T (srv\<lparr>srv_tm := tm', srv_store := st',
                 srv_waiting := srv_waiting srv @ (if out = SubWaiting then [(resolve_tenant ctx, topic, uuid, r)] else []),
                 srv_catchup := srv_catchup srv @ (if out = SubWaiting then [(make_topic_key (resolve_tenant ctx) topic, r, None)] else [])\<rparr>)"
proof (cases "topic = [] \<or> \<not> ok")
  case True
  then have "subscribe_handler_start ctx topic ok uuid r now (srv_tm srv) (srv_store srv)
      = Inr (srv_tm srv, srv_store srv, if topic = [] then SubBadRequest else SubUpgradeFailed)"
    unfolding subscribe_handler_start_def Let_def by (cases "topic = []") simp_all
  then have "tm' = srv_tm srv" "st' = srv_store srv" "out \<noteq> SubWaiting" using res by auto
  then show ?thesis using inv by (simp add: srv_inv_def)
next
  case False
  then have tp: "topic \<noteq> []" and ok: "ok" by simp_all
  have wf: "tm_wf T (srv_tm srv) (srv_store srv)" and bm: "bm_reach (tm_buffer (srv_tm srv))"
    using inv by (simp_all add: srv_inv_def)
  obtain tm'' s where h: "subscribe_handler_start ctx topic True uuid r now (srv_tm srv) (srv_store srv)
        = Inr (tm'', (srv_store srv)(r \<mapsto> sub_start s), SubWaiting)"
    and sf: "sub_id s = uuid" "sub_tenant s = resolve_tenant ctx" "sub_inbox s = []" "sub_frames s = []"
    and wf'': "tm_wf T tm'' ((srv_store srv)(r \<mapsto> sub_start s))"
    and tot: "tm_get_total_subscriber_count tm'' = Suc (tm_get_total_subscriber_count (srv_tm srv))"
    and buf: "tm_buffer tm'' = add_new_subscriber (tm_buffer (srv_tm srv))"
    and kept: "topics_kept (srv_tm srv) tm''"
    and tk: "\<exists>t. map_of (tm_topics tm'') (make_topic_key (resolve_tenant ctx) topic) = Some t
             \<and> tp_tenant t = resolve_tenant ctx"
    using subscribe_handler_start_fresh [OF wf colon ten bm none fresh tp, of now] by blast
  have eq: "tm' = tm''" "st' = (srv_store srv)(r \<mapsto> sub_start s)" "out = SubWaiting"
    using res h ok by simp_all
  have keeps: "store_keeps (srv_store srv) st'"
    unfolding eq using none by (rule store_keeps_alloc)
  have msgs: "store_msgs_ok st'"
    unfolding store_msgs_ok_def
  proof (intro allI impI ballI)
    fix r' s' m assume at: "st' r' = Some s'" and m: "m \<in> set (sub_inbox s') \<union> set (sub_frames s')"
    show "msg_tenant m = sub_tenant s'"
    proof (cases "r' = r")
      case True
      then have "s' = sub_start s" using at by (simp add: eq)
      then show ?thesis using m sf by (simp add: sub_start_def)
    next
      case False
      then show ?thesis using at m inv by (auto simp: eq srv_inv_def store_msgs_ok_def)
    qed
  qed
  have c1: "catchup_ok tm' st' (srv_catchup srv)"
    by (rule catchup_ok_mono [of "srv_tm srv" "srv_store srv" "srv_catchup srv"]) (use inv kept keeps eq in \<open>simp_all add: srv_inv_def\<close>)
  obtain t where t: "map_of (tm_topics tm') (make_topic_key (resolve_tenant ctx) topic) = Some t"
    "tp_tenant t = resolve_tenant ctx" using tk eq by blast
  have c2: "catchup_ok tm' st' [(make_topic_key (resolve_tenant ctx) topic, r, None)]"
    unfolding catchup_ok_def using t sf by (simp add: eq sub_start_def)
  have "catchup_ok tm' st' (srv_catchup srv @ [(make_topic_key (resolve_tenant ctx) topic, r, None)])"
    using c1 c2 by (auto simp: catchup_ok_def)
  moreover have "bm_reach (tm_buffer tm')" using bm buf eq by (simp add: bm_reach.add)
  moreover have "bm_subscriber_count (tm_buffer tm') = word_of_int (int (tm_get_total_subscriber_count tm'))"
    using inv buf tot eq by (simp add: srv_inv_def add_new_subscriber_def word_of_nat_Suc)
  ultimately show ?thesis using wf'' msgs eq by (simp add: srv_inv_def)
qed

lemma srv_inv_store:
  assumes inv: "srv_inv T srv" and keeps: "store_keeps (srv_store srv) st'"
    and bk: "\<And>r s'. st' r = Some s' \<Longrightarrow> \<exists>s. srv_store srv r = Some s \<and> sub_tenant s' = sub_tenant s
           \<and> set (sub_inbox s') \<union> set (sub_frames s') \<subseteq> set (sub_inbox s) \<union> set (sub_frames s)"
  shows "srv_inv T (srv\<lparr>srv_store := st'\<rparr>)"
proof -
  have "store_msgs_ok (srv_store srv)" using inv by (simp add: srv_inv_def)
  then have "store_msgs_ok st'" using bk by (rule store_msgs_ok_back)
  moreover have "tm_wf T (srv_tm srv) st'"
    using inv by (intro tm_wf_keeps [OF _ keeps]) (simp add: srv_inv_def)
  moreover have "catchup_ok (srv_tm srv) st' (srv_catchup srv)"
    by (rule catchup_ok_mono [of "srv_tm srv" "srv_store srv" "srv_catchup srv"]) (use inv keeps in \<open>simp_all add: srv_inv_def\<close>)
  ultimately show ?thesis using inv by (simp add: srv_inv_def)
qed

lemma upd_back:
  "st r = Some s \<Longrightarrow> sub_tenant s' = sub_tenant s \<Longrightarrow>
   set (sub_inbox s') \<union> set (sub_frames s') \<subseteq> set (sub_inbox s) \<union> set (sub_frames s) \<Longrightarrow>
   (st(r \<mapsto> s')) r' = Some s'' \<Longrightarrow>
   \<exists>s0. st r' = Some s0 \<and> sub_tenant s'' = sub_tenant s0
      \<and> set (sub_inbox s'') \<union> set (sub_frames s'') \<subseteq> set (sub_inbox s0) \<union> set (sub_frames s0)"
  by (cases "r' = r") simp_all

lemma srv_inv_finish:
  assumes inv: "srv_inv T srv"
    and res: "subscribe_handler_finish tn tp u r (srv_tm srv) (srv_store srv) = Some (Inr (tm', st'))"
  shows "srv_inv T (srv\<lparr>srv_tm := tm', srv_store := st', srv_waiting := w\<rparr>)"
proof -
  obtain e where un: "tm_unsubscribe tn tp u (srv_tm srv) (srv_store srv) = Inr (tm', st', e)"
  proof -
    obtain s where "srv_store srv r = Some s" and "sub_ctx_cancelled s"
      and g: "go_bind (tm_unsubscribe tn tp u (srv_tm srv) (srv_store srv)) (\<lambda>(tm', st', _). Inr (tm', st'))
              = Inr (tm', st')"
      using res by (cases "srv_store srv r") (auto simp: subscribe_handler_finish_def split: if_splits)
    then obtain p where "tm_unsubscribe tn tp u (srv_tm srv) (srv_store srv) = Inr p"
      and "(case p of (tm', st', _) \<Rightarrow> Inr (tm', st')) = (Inr (tm', st') :: go_panic + _)" by auto
    then show ?thesis using that by (cases p) auto
  qed
  have wf: "tm_wf T (srv_tm srv) (srv_store srv)" using inv by (simp add: srv_inv_def)
  from tm_unsubscribe_cases [OF wf un] show ?thesis
  proof
    assume "tm' = srv_tm srv \<and> st' = srv_store srv"
    then show ?thesis using inv by (simp add: srv_inv_def)
  next
    assume "\<exists>r s. srv_store srv r = Some s \<and> st' = (srv_store srv)(r \<mapsto> sub_close s) \<and> tm_wf T tm' st'
       \<and> Suc (tm_get_total_subscriber_count tm') = tm_get_total_subscriber_count (srv_tm srv)
       \<and> tm_buffer tm' = on_subscriber_removal (tm_buffer (srv_tm srv)) \<and> tm_throttler tm' = tm_throttler (srv_tm srv)
       \<and> tm_shut_down tm' = tm_shut_down (srv_tm srv) \<and> tm_monitor_running tm' = tm_monitor_running (srv_tm srv)
       \<and> topics_kept (srv_tm srv) tm'"
    then obtain r0 s0 where s0: "srv_store srv r0 = Some s0" and st': "st' = (srv_store srv)(r0 \<mapsto> sub_close s0)"
      and wf': "tm_wf T tm' st'"
      and tot: "Suc (tm_get_total_subscriber_count tm') = tm_get_total_subscriber_count (srv_tm srv)"
      and buf: "tm_buffer tm' = on_subscriber_removal (tm_buffer (srv_tm srv))"
      and kept: "topics_kept (srv_tm srv) tm'" by blast
    have keeps: "store_keeps (srv_store srv) st'" using s0 st' by (simp add: store_keeps_upd)
    have msgs: "store_msgs_ok st'"
    proof (rule store_msgs_ok_back)
      show "store_msgs_ok (srv_store srv)" using inv by (simp add: srv_inv_def)
    next
      fix r' s' assume "st' r' = Some s'"
      then show "\<exists>s. srv_store srv r' = Some s \<and> sub_tenant s' = sub_tenant s
           \<and> set (sub_inbox s') \<union> set (sub_frames s') \<subseteq> set (sub_inbox s) \<union> set (sub_frames s)"
        using upd_back [of "srv_store srv" r0 s0 "sub_close s0" r' s'] s0 by (simp add: st')
    qed
    have cu: "catchup_ok tm' st' (srv_catchup srv)"
      by (rule catchup_ok_mono [of "srv_tm srv" "srv_store srv" "srv_catchup srv"]) (use inv kept keeps in \<open>simp_all add: srv_inv_def\<close>)
    have "bm_reach (tm_buffer tm')" using inv buf by (simp add: srv_inv_def bm_reach.remove)
    moreover have "bm_subscriber_count (tm_buffer tm') = word_of_int (int (tm_get_total_subscriber_count tm'))"
      using inv buf tot word_of_nat_Suc [of "tm_get_total_subscriber_count tm'", where 'a = 32]
      by (simp add: srv_inv_def on_subscriber_removal_def)
    ultimately show ?thesis using wf' msgs cu by (simp add: srv_inv_def)
  qed
qed

lemma catchup_ok_update:
  "catchup_ok tm st cs \<Longrightarrow> catchup_ok tm st [x] \<Longrightarrow> catchup_ok tm st (cs[i := x])"
proof -
  assume a: "catchup_ok tm st cs" and b: "catchup_ok tm st [x]"
  have "set (cs[i := x]) \<subseteq> insert x (set cs)" by (rule set_update_subset_insert)
  then show ?thesis using a b unfolding catchup_ok_def by (metis (no_types, lifting) insert_iff list.set(2) subsetD)
qed

lemma catchup_ok_remove: "catchup_ok tm st cs \<Longrightarrow> catchup_ok tm st (remove_nth i cs)"
proof -
  assume a: "catchup_ok tm st cs"
  have "set (remove_nth i cs) \<subseteq> set cs" by (rule set_remove_nth)
  then show ?thesis using a unfolding catchup_ok_def by (metis (no_types, lifting) subsetD)
qed

lemma catchup_entry:
  "catchup_ok tm st cs \<Longrightarrow> i < length cs \<Longrightarrow> cs ! i = (k, r, rest) \<Longrightarrow>
   \<exists>t s. map_of (tm_topics tm) k = Some t \<and> st r = Some s \<and> sub_tenant s = tp_tenant t
     \<and> (\<forall>ms. rest = Some ms \<longrightarrow> (\<forall>m \<in> set ms. msg_tenant m = tp_tenant t))"
proof -
  assume c: "catchup_ok tm st cs" and i: "i < length cs" and ci: "cs ! i = (k, r, rest)"
  have "(k, r, rest) \<in> set cs" using i ci by (metis nth_mem)
  from bspec [OF c [unfolded catchup_ok_def] this] show ?thesis by simp
qed

lemma srv_inv_catchup_read:
  assumes inv: "srv_inv T srv" and i: "i < length (srv_catchup srv)" and ci: "srv_catchup srv ! i = (k, r, None)"
    and t: "map_of (tm_topics (srv_tm srv)) k = Some t" and gl: "rc_get_last (tp_cache t) 50 = Inr ms"
  shows "srv_inv T (srv\<lparr>srv_catchup := (srv_catchup srv)[i := (k, r, Some ms)]\<rparr>)"
proof -
  have c: "catchup_ok (srv_tm srv) (srv_store srv) (srv_catchup srv)" and wf: "tm_wf T (srv_tm srv) (srv_store srv)"
    using inv by (simp_all add: srv_inv_def)
  obtain t' s where e: "map_of (tm_topics (srv_tm srv)) k = Some t'" "srv_store srv r = Some s" "sub_tenant s = tp_tenant t'"
    using catchup_entry [OF c i ci] by blast
  have tt: "t' = t" using e(1) t by simp
  have tw: "topic_wf t (srv_store srv)" "topic_msgs_ok T t" using tm_wf_topic [OF wf t] by simp_all
  have "ms = keep_last 50 (rc_contents (tp_cache t))"
    using rc_get_last_eq [of "tp_cache t" 50] tw(1) gl by (simp add: topic_wf_def)
  then have "\<forall>m \<in> set ms. msg_tenant m = tp_tenant t"
    using tw(2) by (auto simp: topic_msgs_ok_def keep_last_def dest: in_set_dropD)
  then have "catchup_ok (srv_tm srv) (srv_store srv) [(k, r, Some ms)]"
    using t e tt by (auto simp: catchup_ok_def)
  then have "catchup_ok (srv_tm srv) (srv_store srv) ((srv_catchup srv)[i := (k, r, Some ms)])"
    using c by (rule catchup_ok_update [rotated])
  then show ?thesis using inv by (simp add: srv_inv_def)
qed

lemma srv_inv_catchup_send:
  assumes inv: "srv_inv T srv" and i: "i < length (srv_catchup srv)" and ci: "srv_catchup srv ! i = (k, r, Some (m # ms))"
    and send: "store_send (srv_store srv) r m = Inr (st', e)"
  shows "srv_inv T (srv\<lparr>srv_store := st', srv_catchup :=
                   (if e = None then (srv_catchup srv)[i := (k, r, Some ms)] else remove_nth i (srv_catchup srv))\<rparr>)"
proof -
  have c: "catchup_ok (srv_tm srv) (srv_store srv) (srv_catchup srv)" and wf: "tm_wf T (srv_tm srv) (srv_store srv)"
    and msgs: "store_msgs_ok (srv_store srv)"
    using inv by (simp_all add: srv_inv_def)
  obtain t s where e: "map_of (tm_topics (srv_tm srv)) k = Some t" "srv_store srv r = Some s" "sub_tenant s = tp_tenant t"
    and mt: "\<forall>x \<in> set (m # ms). msg_tenant x = tp_tenant t"
    using catchup_entry [OF c i ci] by blast
  have keeps: "store_keeps (srv_store srv) st'" by (rule store_send_keeps [OF send])
  have msgs': "store_msgs_ok st'" by (rule store_send_msgs_ok [OF msgs send]) (use e mt in simp)
  have wf': "tm_wf T (srv_tm srv) st'" by (rule tm_wf_keeps [OF wf keeps])
  have c': "catchup_ok (srv_tm srv) st' (srv_catchup srv)"
    by (rule catchup_ok_mono [OF c topics_kept_refl keeps]) simp
  obtain s' where "st' r = Some s'" "sub_tenant s' = sub_tenant s"
    using keeps e(2) unfolding store_keeps_def by blast
  then have "catchup_ok (srv_tm srv) st' [(k, r, Some ms)]"
    using e mt by (auto simp: catchup_ok_def)
  then have "catchup_ok (srv_tm srv) st'
      (if e = None then (srv_catchup srv)[i := (k, r, Some ms)] else remove_nth i (srv_catchup srv))"
    using c' by (simp add: catchup_ok_update catchup_ok_remove)
  then show ?thesis using inv msgs' wf' by (simp add: srv_inv_def)
qed

lemma srv_inv_init: "srv_inv T (start_server mem now)"
  using bm_reach.start [OF bm_reach.new, of mem]
  by (simp add: srv_inv_def start_server_def new_topic_manager_def tm_wf_def store_msgs_ok_def catchup_ok_def
                tm_get_total_subscriber_count_def bm_start_def new_adaptive_buffer_manager_def)

lemma srv_inv_tm_fields:
  assumes inv: "srv_inv T srv" and topics: "tm_topics tm' = tm_topics (srv_tm srv)"
    and bm: "bm_reach (tm_buffer tm')"
    and cnt: "bm_subscriber_count (tm_buffer tm') = bm_subscriber_count (tm_buffer (srv_tm srv))"
  shows "srv_inv T (srv\<lparr>srv_tm := tm'\<rparr>)"
proof -
  have "tm_wf T tm' (srv_store srv) = tm_wf T (srv_tm srv) (srv_store srv)"
    by (rule tm_wf_same_topics [OF topics])
  moreover have "catchup_ok tm' (srv_store srv) (srv_catchup srv) = catchup_ok (srv_tm srv) (srv_store srv) (srv_catchup srv)"
    by (rule catchup_ok_same_topics [OF topics])
  moreover have "tm_get_total_subscriber_count tm' = tm_get_total_subscriber_count (srv_tm srv)"
    by (rule tm_total_same_topics [OF topics])
  ultimately show ?thesis using inv bm cnt by (simp add: srv_inv_def)
qed

lemma srv_inv_upd:
  assumes inv: "srv_inv T srv" and s: "srv_store srv r = Some s"
    and ids: "sub_id s' = sub_id s" and ten: "sub_tenant s' = sub_tenant s"
    and msgs: "set (sub_inbox s') \<union> set (sub_frames s') \<subseteq> set (sub_inbox s) \<union> set (sub_frames s)"
  shows "srv_inv T (srv\<lparr>srv_store := (srv_store srv)(r \<mapsto> s')\<rparr>)"
proof (rule srv_inv_store [OF inv])
  show "store_keeps (srv_store srv) ((srv_store srv)(r \<mapsto> s'))" by (rule store_keeps_upd [where st="srv_store srv", OF s ids ten])
next
  fix r' s'' assume "((srv_store srv)(r \<mapsto> s')) r' = Some s''"
  then show "\<exists>s0. srv_store srv r' = Some s0 \<and> sub_tenant s'' = sub_tenant s0
           \<and> set (sub_inbox s'') \<union> set (sub_frames s'') \<subseteq> set (sub_inbox s0) \<union> set (sub_frames s0)"
    by (rule upd_back [where st="srv_store srv", OF s ten msgs])
qed

lemma srv_inv_loop:
  assumes inv: "srv_inv T srv" and s: "srv_store srv r = Some s" and step: "send_loop_step now ev s = Some (s', out)"
  shows "srv_inv T (srv\<lparr>srv_store := (srv_store srv)(r \<mapsto> s')\<rparr>)"
proof -
  have "sub_id s' = sub_id s \<and> sub_tenant s' = sub_tenant s" by (rule send_loop_step_ids [OF step])
  then show ?thesis using srv_inv_upd [OF inv s _ _ send_loop_step_msgs [OF step]] by simp
qed

lemma srv_inv_disconnect:
  assumes inv: "srv_inv T srv" and s: "srv_store srv r = Some s"
  shows "srv_inv T (srv\<lparr>srv_store := (srv_store srv)(r \<mapsto> sub_cancel_parent s)\<rparr>)"
  by (rule srv_inv_upd [OF inv s]) (simp_all add: sub_cancel_parent_def)

lemma srv_inv_shutdown:
  assumes inv: "srv_inv T srv" and res: "tm_shutdown (srv_tm srv) (srv_store srv) = Inr (tm', st')"
  shows "srv_inv T (srv\<lparr>srv_tm := tm', srv_store := st'\<rparr>)"
proof -
  have wf: "tm_wf T (srv_tm srv) (srv_store srv)" "store_msgs_ok (srv_store srv)"
    using inv by (simp_all add: srv_inv_def)
  note r = tm_shutdown_preserves [OF wf res]
  have c: "catchup_ok (srv_tm srv) (srv_store srv) (srv_catchup srv)" using inv by (simp add: srv_inv_def)
  have "catchup_ok tm' st' (srv_catchup srv)"
    by (rule catchup_ok_mono [OF c topics_kept_same]) (use r in simp_all)
  moreover have "tm_get_total_subscriber_count tm' = tm_get_total_subscriber_count (srv_tm srv)"
    by (rule tm_total_same_topics) (use r in simp)
  ultimately show ?thesis using inv r by (simp add: srv_inv_def)
qed

lemma srv_reach_inv:
  assumes colon: "\<forall>x \<in> T. CHR '':'' \<notin> set x"
  shows "srv_reach T srv \<Longrightarrow> srv_inv T srv"
proof (induction rule: srv_reach.induct)
  case (init env now)
  show ?case unfolding main_start_def by (rule srv_inv_init)
next
  case (publish srv ctx meth body fmt t0 t1 t2 g a tm' st' resp d)
  show ?case by (rule srv_inv_publish [OF publish.IH colon publish.hyps(2,3)])
next
  case (subscribe srv ctx r uuid topic ok now tm' st' out)
  show ?case by (rule srv_inv_subscribe [OF subscribe.IH colon subscribe.hyps(2-5)])
next
  case (finish srv i tn tp u r tm' st')
  show ?case by (rule srv_inv_finish [OF finish.IH finish.hyps(4)])
next
  case (catchup_read srv i k r t ms)
  show ?case by (rule srv_inv_catchup_read [OF catchup_read.IH catchup_read.hyps(2-5)])
next
  case (catchup_send srv i k r m ms st' e)
  show ?case by (rule srv_inv_catchup_send [OF catchup_send.IH catchup_send.hyps(2-4)])
next
  case (catchup_done srv i k r)
  then show ?case by (simp add: srv_inv_def catchup_ok_remove)
next
  case (loop srv r s now ev s' out)
  show ?case by (rule srv_inv_loop [OF loop.IH loop.hyps(2,3)])
next
  case (disconnect srv r s)
  show ?case by (rule srv_inv_disconnect [OF disconnect.IH disconnect.hyps(2)])
next
  case (monitor srv ev tm')
  show ?case
    by (rule srv_inv_tm_fields [OF monitor.IH]) (use monitor.IH monitor_step_topics [OF monitor.hyps(2)] in \<open>simp_all add: srv_inv_def\<close>)
next
  case (buffer_tick srv ev bm')
  have "bm_reach (tm_buffer (srv_tm srv))" using buffer_tick.IH by (simp add: srv_inv_def)
  then have "bm_reach bm'" by (rule bm_reach.monitor [OF _ buffer_tick.hyps(2)])
  then show ?case
    by (intro srv_inv_tm_fields [OF buffer_tick.IH])
       (simp_all add: bm_monitor_step_count [OF buffer_tick.hyps(2)])
next
  case (throttle_timer srv now i th')
  show ?case by (rule srv_inv_tm_fields [OF throttle_timer.IH]) (use throttle_timer.IH in \<open>simp_all add: srv_inv_def\<close>)
next
  case (shutdown srv tm' st')
  show ?case by (rule srv_inv_shutdown [OF shutdown.IH shutdown.hyps(2)])
next
  case (buffer_stop srv bm')
  have "bm_reach (tm_buffer (srv_tm srv))" using buffer_stop.IH by (simp add: srv_inv_def)
  then have "bm_reach bm'" by (rule bm_reach.stop [OF _ buffer_stop.hyps(2)])
  moreover have "bm_subscriber_count bm' = bm_subscriber_count (tm_buffer (srv_tm srv))"
    using buffer_stop.hyps(2) by (auto simp: bm_stop_def split: if_splits)
  ultimately show ?case by (intro srv_inv_tm_fields [OF buffer_stop.IH]) simp_all
qed

subsection \<open>Concrete runs\<close>

lemma sc_buf: "get_buffer_size (bm_start (new_adaptive_buffer_manager m)) = 1000"
  by (simp add: get_buffer_size_def bm_start_def new_adaptive_buffer_manager_def max_buffer_size_def)

lemmas sc_eval = subscribe_handler_start_def resolve_tenant_def sc_buf Let_def new_subscriber_def
  tm_subscribe_def with_sub_def get_or_create_topic_def topic_subscribe_def make_topic_key_def
  new_topic_def new_recent_message_cache_def start_server_def new_topic_manager_def sub_start_def
  set_topic_def publish_handler_def should_throttle_def new_adaptive_throttler_def default_config_def
  tm_publish_def topic_publish_def topic_publish_begin_def rc_add_def go_update_def go_rem_def
  get_subscribers_snapshot_def store_send_def send_messages_def chan_has_room_def new_message_def
  main_start_def

lemma sc_reach1:
  assumes ten: "resolve_tenant ctx \<in> T"
    and val: "sc_sub ctx topic = Inr (fst (projr (sc_sub ctx topic)), fst (snd (projr (sc_sub ctx topic))), SubWaiting)"
  shows "srv_reach T (sc_srv1 ctx topic)"
  using srv_reach.subscribe [where T = T, OF srv_reach.init ten _ _ val]
  by (simp add: main_start_def start_server_def is_fresh_id_def)

lemma sc_reach2:
  assumes r1: "srv_reach T (sc_srv1 ctx topic)" and ten: "resolve_tenant pctx \<in> T"
    and val: "sc_pub ctx topic pctx ptopic = Inr (fst (projr (sc_pub ctx topic pctx ptopic)),
                fst (snd (projr (sc_pub ctx topic pctx ptopic))), fst (snd (snd (projr (sc_pub ctx topic pctx ptopic)))),
                snd (snd (snd (projr (sc_pub ctx topic pctx ptopic)))))"
  shows "srv_reach T (sc_srv2 ctx topic pctx ptopic)"
  by (rule srv_reach.publish [OF r1 ten val])

lemma sc_reach_cross: "srv_reach {''a'', ''a:b''} (sc_srv2 (Some ''a'') ''b:c'' (Some ''a:b'') ''c'')"
proof (rule sc_reach2 [OF sc_reach1])
  show "sc_sub (Some ''a'') ''b:c'' = Inr (fst (projr (sc_sub (Some ''a'') ''b:c'')),
          fst (snd (projr (sc_sub (Some ''a'') ''b:c''))), SubWaiting)"
    by (simp add: sc_eval)
qed (simp_all add: sc_eval)

lemma sc_reach_default: "srv_reach {''default-tenant''} (sc_srv2 None ''news'' None ''news'')"
proof (rule sc_reach2 [OF sc_reach1])
  show "sc_sub None ''news'' = Inr (fst (projr (sc_sub None ''news'')),
          fst (snd (projr (sc_sub None ''news''))), SubWaiting)"
    by (simp add: sc_eval)
qed (simp_all add: sc_eval)

subsection \<open>Properties of the running server\<close>

text \<open>
  C23. Tenant isolation: in every reachable state of a server whose tenants
  contain no colon, every message waiting in a subscriber's channel or
  already handed to its connection was published by the subscriber's own
  tenant.
\<close>

theorem srv_tenant_isolation:
  assumes colon: "\<forall>x \<in> T. CHR '':'' \<notin> set x" and reach: "srv_reach T srv"
    and s: "srv_store srv r = Some s" and m: "m \<in> set (sub_inbox s) \<union> set (sub_frames s)"
  shows "msg_tenant m = sub_tenant s"
  using srv_reach_inv [OF colon reach] s m by (auto simp: srv_inv_def store_msgs_ok_def)

theorem srv_tenant_isolation_witness:
  "\<exists>s m. srv_store (sc_srv2 None ''news'' None ''news'') 0 = Some s \<and> m \<in> set (sub_inbox s)
     \<and> msg_tenant m = sub_tenant s"
proof -
  obtain s m where s: "srv_store (sc_srv2 None ''news'' None ''news'') 0 = Some s" and m: "m \<in> set (sub_inbox s)"
    by (simp add: sc_eval)
  have "msg_tenant m = sub_tenant s"
    by (rule srv_tenant_isolation [OF _ sc_reach_default s]) (use m in simp_all)
  then show ?thesis using s m by blast
qed

text \<open>
  C24. The buffer manager's subscriber count, the input of its buffer-size
  formula, always equals (as an \<open>int32\<close>) the number of subscribers the
  registry holds, which is what the health endpoint reports.
\<close>

theorem srv_health_ledger:
  assumes colon: "\<forall>x \<in> T. CHR '':'' \<notin> set x" and reach: "srv_reach T srv"
  shows "bm_subscriber_count (tm_buffer (srv_tm srv))
           = word_of_int (int (hr_subscribers (health_handler (srv_health srv) m t_ts t_up g (srv_tm srv))))"
  using srv_reach_inv [OF colon reach] by (simp add: srv_inv_def health_handler_def)

theorem srv_health_ledger_witness:
  "hr_subscribers (health_handler (srv_health (sc_srv1 None ''news'')) ms_ex 5 5 3 (srv_tm (sc_srv1 None ''news''))) = 1
   \<and> bm_subscriber_count (tm_buffer (srv_tm (sc_srv1 None ''news''))) = 1"
proof -
  have r: "srv_reach {''default-tenant''} (sc_srv1 None ''news'')"
    by (rule sc_reach1) (simp_all add: sc_eval)
  have h: "hr_subscribers (health_handler (srv_health (sc_srv1 None ''news'')) ms_ex 5 5 3 (srv_tm (sc_srv1 None ''news''))) = 1"
    by (simp add: sc_eval health_handler_def tm_get_total_subscriber_count_def get_subscriber_count_def)
  have "bm_subscriber_count (tm_buffer (srv_tm (sc_srv1 None ''news'')))
        = word_of_int (int (hr_subscribers (health_handler (srv_health (sc_srv1 None ''news'')) ms_ex 5 5 3 (srv_tm (sc_srv1 None ''news'')))))"
    by (rule srv_health_ledger [OF _ r]) simp
  then show ?thesis using h by simp
qed

text \<open>
  C25. In every reachable state, a WebSocket subscription with a non-empty
  topic, a tenant the server serves and a fresh id is accepted: the handler
  neither panics nor rejects it, the new subscriber carries the id and the
  request's tenant, and the server reaches the state where the handler waits
  and the catch-up is pending.
\<close>

theorem srv_subscribe_accepted:
  assumes colon: "\<forall>x \<in> T. CHR '':'' \<notin> set x" and reach: "srv_reach T srv"
    and ten: "resolve_tenant ctx \<in> T" and none: "srv_store srv r = None"
    and fresh: "is_fresh_id (srv_store srv) uuid" and topic: "topic \<noteq> []"
  shows "\<exists>tm' st'. subscribe_handler_start ctx topic True uuid r now (srv_tm srv) (srv_store srv)
               = Inr (tm', st', SubWaiting)
     \<and> (\<exists>s. st' r = Some s \<and> sub_id s = uuid \<and> sub_tenant s = resolve_tenant ctx)
     \<and> srv_reach T (srv\<lparr>srv_tm := tm', srv_store := st',
          srv_waiting := srv_waiting srv @ [(resolve_tenant ctx, topic, uuid, r)],
          srv_catchup := srv_catchup srv @ [(make_topic_key (resolve_tenant ctx) topic, r, None)]\<rparr>)"
proof -
  have inv: "srv_inv T srv" by (rule srv_reach_inv [OF colon reach])
  have wf: "tm_wf T (srv_tm srv) (srv_store srv)" and bm: "bm_reach (tm_buffer (srv_tm srv))"
    using inv by (simp_all add: srv_inv_def)
  obtain tm' s where res: "subscribe_handler_start ctx topic True uuid r now (srv_tm srv) (srv_store srv)
                             = Inr (tm', (srv_store srv)(r \<mapsto> sub_start s), SubWaiting)"
    and sf: "sub_id s = uuid" "sub_tenant s = resolve_tenant ctx"
    using subscribe_handler_start_fresh [OF wf colon ten bm none fresh topic, of now] by blast
  have "srv_reach T (srv\<lparr>srv_tm := tm', srv_store := (srv_store srv)(r \<mapsto> sub_start s),
          srv_waiting := srv_waiting srv @ [(resolve_tenant ctx, topic, uuid, r)],
          srv_catchup := srv_catchup srv @ [(make_topic_key (resolve_tenant ctx) topic, r, None)]\<rparr>)"
    using srv_reach.subscribe [OF reach ten none fresh res] by simp
  then show ?thesis using res sf by (auto simp: sub_start_def)
qed

theorem srv_subscribe_accepted_witness:
  "\<exists>tm' st'. subscribe_handler_start None ''news'' True ''u1'' 0 0 (srv_tm sc_srv0) (srv_store sc_srv0)
      = Inr (tm', st', SubWaiting) \<and> (\<exists>s. st' 0 = Some s \<and> sub_id s = ''u1'' \<and> sub_tenant s = ''default-tenant'')"
proof -
  have "\<exists>tm' st'. subscribe_handler_start None ''news'' True ''u1'' 0 0 (srv_tm sc_srv0) (srv_store sc_srv0)
               = Inr (tm', st', SubWaiting)
     \<and> (\<exists>s. st' 0 = Some s \<and> sub_id s = ''u1'' \<and> sub_tenant s = resolve_tenant None)
     \<and> srv_reach {''default-tenant''} (sc_srv0\<lparr>srv_tm := tm', srv_store := st',
          srv_waiting := srv_waiting sc_srv0 @ [(resolve_tenant None, ''news'', ''u1'', 0)],
          srv_catchup := srv_catchup sc_srv0 @ [(make_topic_key (resolve_tenant None) ''news'', 0, None)]\<rparr>)"
    by (rule srv_subscribe_accepted [OF _ srv_reach.init]) (simp_all add: resolve_tenant_def main_start_def start_server_def is_fresh_id_def)
  then show ?thesis by (auto simp: resolve_tenant_def)
qed

text \<open>
  C27. Tenant isolation fails when a tenant may contain a colon:
  \<open>makeTopicKey\<close> maps tenant \<open>a\<close>, topic \<open>b:c\<close> and tenant \<open>a:b\<close>, topic
  \<open>c\<close> to the same key, so a reachable run of the server delivers a
  message published by tenant \<open>a:b\<close> into the channel of a subscriber of
  tenant \<open>a\<close>.
\<close>

theorem srv_cross_tenant_delivery:
  "\<exists>srv s m. srv_reach {''a'', ''a:b''} srv \<and> srv_store srv 0 = Some s \<and> m \<in> set (sub_inbox s)
      \<and> sub_tenant s = ''a'' \<and> sub_topic s = ''b:c'' \<and> msg_tenant m = ''a:b'' \<and> msg_topic m = ''c''"
proof -
  have "\<exists>s m. srv_store (sc_srv2 (Some ''a'') ''b:c'' (Some ''a:b'') ''c'') 0 = Some s \<and> m \<in> set (sub_inbox s)
      \<and> sub_tenant s = ''a'' \<and> sub_topic s = ''b:c'' \<and> msg_tenant m = ''a:b'' \<and> msg_topic m = ''c''"
    by (simp add: sc_eval)
  then show ?thesis using sc_reach_cross by blast
qed

end
