(* ===== verification/Spec2Isabelle.thy ===== *)
theory Spec2Isabelle
  imports RecentCache CacheCopy Subscriber BufferManager Throttler ThrottlerConcurrent Config Topic TopicManager
    Handlers System
begin

text \<open>
  \<^bold>\<open>ClervLive: a verification development of the delivery core and its server.\<close>

  ClervLive is a multi-tenant publish/subscribe server written in Go. Publishers
  POST JSON events (\<open>src/internal/handlers/publish.go\<close>, \<open>PublishHandler\<close>);
  subscribers attach over WebSocket (\<open>SubscriberHandler\<close>, same file). Both go
  through the \<open>TopicManager\<close> (\<open>src/internal/core/topic.go\<close>, second part), a
  registry from the key \<open>"tenant:topic"\<close> to \<open>Topic\<close>s (first part of the same
  file). A topic keeps a ring buffer of recent messages
  (\<open>src/internal/core/recent_cache.go\<close>) and fans each publish out to its
  \<open>Subscriber\<close>s (\<open>src/internal/core/subscriber.go\<close>), each with a bounded
  channel, a drop policy and a send loop writing to the connection. The
  \<open>AddaptiveBufferManager\<close> (\<open>src/unnamed/part_002\<close>) sizes new channels from
  a memory budget and the subscriber count; the \<open>AdaptiveThrottler\<close>
  (\<open>src/unnamed/part_003\<close>) delays publishers under load. \<open>main\<close>
  (\<open>src/unnamed/part_001\<close>) wires one of each and serves the handlers
  concurrently.

  \<^bold>\<open>Theories.\<close> Each imports the ones it calls.
  \<^item> \<open>Prelude\<close>: Go panics as values (\<open>go_panic\<close>, \<open>go_result = go_panic + 'a\<close>,
    \<open>go_bind\<close>), checked slice access, Go's \<open>%\<close> and \<open>/\<close> as \<open>smod\<close>/\<open>sdiv\<close>.
  \<^item> \<open>Message\<close>: the \<open>Message\<close> record, \<open>NewMessage\<close>, \<open>GenerateId\<close>
    (\<open>src/internal/config/config.go\<close>, package \<open>core\<close> part).
  \<^item> \<open>RecentCache\<close>: \<open>recent_cache\<close> and every method; refinement of \<open>Add\<close>
    against an abstract list window and the window contract (C1, C2).
  \<^item> \<open>CacheCopy\<close>: the \<open>cache\<close> package's own copy of the ring buffer
    (\<open>src/internal/cache/recent_cache.go\<close>), translated from its lines, and
    its equivalence with the core cache (\<open>cache_copy_equivalent\<close>).
  \<^item> \<open>Subscriber\<close>: the subscriber record, \<open>SendMessages\<close>,
    \<open>handleBackPressure\<close>, one \<open>select\<close> of \<open>sendLoop\<close> as \<open>send_loop_step\<close>,
    \<open>Close\<close>, the health predicates; \<open>sub_reach\<close>, every run of one
    subscriber, deliberately starts from any drop strategy (the code only
    uses \<open>DROP_OLDEST\<close>), so its lemmas cover every branch (C3--C7).
  \<^item> \<open>BufferManager\<close>: \<open>int32\<close>/\<open>int64\<close> as words with Go's wrap-around,
    \<open>recalculate\<close> refined against the specification's formula, the reachable
    states \<open>bm_reach\<close>, and the \<open>int32\<close> wrap of large budgets
    (C8--C10).
  \<^item> \<open>Throttler\<close>: \<open>ShouldThrottle\<close> over reals for Go's \<open>float64\<close> ratios,
    the disarm timer as pending deadlines, runs of non-overlapping calls as
    \<open>th_run\<close>: the decision (C11) and the bound of the reported signals (C12).
  \<^item> \<open>ThrottlerConcurrent\<close>: \<open>ShouldThrottle\<close> split into its atomic
    loads and stores (\<open>call_step\<close>), concurrent calls, the monitor's two
    stores and the disarm goroutines interleaved by \<open>tc_reach\<close>: a pending
    disarm always bounds throttling (C13), yet two overlapping calls both arm
    and the stale disarm ends a later arming early (C14); a call run alone is
    the atomic \<open>should_throttle\<close> (C15).
  \<^item> \<open>Topic\<close>: subscribers live in an explicit store \<open>sub_store\<close> from
    references to subscriber states, because the topic's map, the handler and
    the fan-out goroutines share \<open>*Subscriber\<close> pointers; \<open>Publish\<close> is split
    into its locked part and one \<open>Deliver\<close> task per goroutine, interleaved by
    \<open>topic_reach\<close> (C16--C22).
  \<^item> \<open>TopicManager\<close>: the registry as an association list, every method as a
    function of manager and store; the well-formedness \<open>tm_wf\<close> and its
    preservation; key injectivity (C26), shutdown (C28), the subscribe and
    unsubscribe round trip (C30).
  \<^item> \<open>Handlers\<close>: \<open>PublishHandler.ServeHTTP\<close> with each early return, the
    subscribe handler split at its wait on the subscriber's context, the
    whole \<open>HealthHandler\<close> response with the runtime readings as inputs;
    the publish responses (C29).
  \<^item> \<open>Config\<close>: \<open>LoadConfig\<close>, \<open>getEnv\<close>, \<open>getEnvInt\<close> over an
    environment map, with the library call \<open>fmt.Sscanf(value, "%d", ...)\<close>
    written out as \<open>scan_int\<close>; its round trip against the decimal
    rendering \<open>itoa\<close> (C31), the exact budget below \<open>2^43\<close> MB (C32),
    and the budget 0 that an unparsable value gives (C33).
  \<^item> \<open>System\<close>: the server as a record of shared state, \<open>main_start\<close>
    (\<open>LoadConfig\<close>, then \<open>start_server\<close>) as \<open>main\<close> builds it, the mux
    (\<open>mux_route\<close>, \<open>metrics_handler\<close>, \<open>root_page\<close>), and \<open>srv_reach\<close>, the
    interleaving of the server's goroutines: a publish request (throttle
    check, snapshot and fan-out), the two halves of a subscribe request, the
    catch-up goroutine (read, then one send at a time), send loops,
    disconnects, the registry monitor, the buffer ticker, the throttler timer,
    shutdown. The invariant \<open>srv_inv\<close> holds in every reachable state
    (\<open>srv_reach_inv\<close>, by rule induction), whence tenant isolation (C23), the
    buffer ledger as the health endpoint reports it (C24) and acceptance of
    fresh subscriptions (C25); a concrete reachable run breaks isolation when
    tenants contain a colon (C27).

  \<^bold>\<open>Concurrency.\<close> In the fine-grained models a mutex-protected section or
  an atomic operation of the code is one step, and goroutines interleave
  between such steps: \<open>topic_reach\<close> separates the fan-out deliveries from
  the snapshot and the catch-up from \<open>Subscribe\<close> (C19, C20), and
  \<open>tc_reach\<close> separates every load and store of \<open>ShouldThrottle\<close> (C14).
  The system model \<open>srv_reach\<close> is coarser: a whole publish request (with
  \<open>ShouldThrottle\<close> and the fan-out), \<open>TopicManager.Subscribe\<close>,
  \<open>GetMetrics\<close> and the monitor's update are single steps there, so its
  reachable states are those in which these calls do not overlap, and its
  invariants (C23--C25) hold at the points where each call has completed.
  The catch-up goroutine and the subscribe handler's two halves are separate
  steps in \<open>srv_reach\<close> too.

  \<^bold>\<open>Bounds and fuel.\<close> No definition uses fuel: every loop of the code is a
  structural recursion over a list (snapshot, cache window, subscribers); the
  goroutines' infinite loops (\<open>sendLoop\<close>, \<open>monitorLoop\<close>, \<open>monitoLoop\<close>)
  are one step per iteration of an inductive run, so termination is not
  claimed for them. A call of \<open>ShouldThrottle\<close> in \<open>tc_reach\<close> takes at
  most eight steps before it returns (C15 exhibits the count for each
  branch). Tenant isolation and the invariant are stated for a set
  \<open>T\<close> of tenants without a colon; the deployed server, which takes
  tenants from the request context, serves \<open>{''default-tenant''}\<close> unless a
  middleware sets another.

  \<^bold>\<open>Not modelled.\<close> JSON encoding and decoding and \<open>%v\<close> printing, the
  WebSocket library, the \<open>http.Server\<close> (timeouts, \<open>ListenAndServe\<close>
  failure and \<open>log.Fatalf\<close>), the mux's path cleaning, signal handling and
  the 30 s shutdown deadline: process I/O and library code, taken as inputs
  or left out. The \<open>runtime\<close> readings of the health handler and of the
  throttler's signals are inputs of the model. \<open>Sscanf\<close> skips Unicode
  spaces beyond ASCII, which byte strings do not have. The Dockerfile
  (\<open>src/unnamed/part_000\<close>) is a build recipe with no program logic.
  Deadlock of nested read locks is outside a model whose lock sections are
  atomic. Go's \<open>float64\<close> arithmetic is exact real arithmetic here; the
  throttler's stored signals may differ from Go's by one unit of
  \<open>10^{-6}\<close>. \<open>Subscriber.Context()\<close>, which the subscribe handler
  calls, is not defined under \<open>src/\<close>; the model reads it as the
  subscriber's own context.
\<close>

end
